theory Spec2Isabelle
  imports Main "HOL-Library.Sublist" "HOL-Library.Multiset"
begin

chapter \<open>TagFolder: the item list, its ordering and the change scheduler\<close>

text \<open>
  A shallow embedding of the parts of \<^verbatim>\<open>src/main.ts\<close> that build the flat item list
  (\<^verbatim>\<open>getItemsList\<close>), choose the item comparator (\<^verbatim>\<open>getCompareMethodItems\<close>),
  maintain the file caches (\<^verbatim>\<open>updateFileCaches\<close>, \<^verbatim>\<open>updateFileCachesAll\<close>) and schedule
  recomputation (\<^verbatim>\<open>loadFileInfoAsync\<close>, \<^verbatim>\<open>loadFileInfos\<close>).

  Strings are \<^typ>\<open>string\<close>, numbers that hold time stamps are \<^typ>\<open>int\<close>, arrays are
  lists. The helper module \<^verbatim>\<open>util\<close> is imported by \<^verbatim>\<open>main.ts\<close> but is not among
  the sources; what is needed of it is either a parameter of the model or a definition
  marked as modelled from the specification.
\<close>

section \<open>String primitives of the host language\<close>

text \<open>
  \<^verbatim>\<open>String.prototype.toLowerCase\<close>, restricted to the ASCII letters: a character with
  code 65..90 is moved up by 32, every other character is kept.
\<close>

definition toLowerChar :: "char \<Rightarrow> char" where
  "toLowerChar c =
     (let n = (of_char c :: nat) in if 65 \<le> n \<and> n \<le> 90 then char_of (n + 32) else c)"

definition toLowerCase :: "string \<Rightarrow> string" where
  "toLowerCase s = map toLowerChar s"

text \<open>\<^verbatim>\<open>s.startsWith(t)\<close>, \<^verbatim>\<open>s.endsWith(t)\<close> and \<^verbatim>\<open>s.contains(t)\<close> (substring).\<close>

definition startsWith :: "string \<Rightarrow> string \<Rightarrow> bool" where
  "startsWith s t = prefix t s"

definition endsWith :: "string \<Rightarrow> string \<Rightarrow> bool" where
  "endsWith s t = suffix t s"

definition contains :: "string \<Rightarrow> string \<Rightarrow> bool" where
  "contains s t = sublist t s"

text \<open>\<^verbatim>\<open>s.substring(1)\<close>: the string without its first character.\<close>

definition substring1 :: "string \<Rightarrow> string" where
  "substring1 s = drop 1 s"

text \<open>
  \<^verbatim>\<open>s.split(c)\<close> for a one-character separator: the pieces between the separators, in
  order; the result is never empty (\<^verbatim>\<open>''.split(',')\<close> is \<^verbatim>\<open>['']\<close>).
\<close>

fun split :: "char \<Rightarrow> string \<Rightarrow> string list" where
  "split c [] = [[]]"
| "split c (x # xs) =
     (if x = c then [] # split c xs
      else (case split c xs of [] \<Rightarrow> [[x]] | p # ps \<Rightarrow> (x # p) # ps))"

text \<open>\<^verbatim>\<open>xs.join(c)\<close> for a one-character separator.\<close>

fun join :: "char \<Rightarrow> string list \<Rightarrow> string" where
  "join c [] = []"
| "join c [p] = p"
| "join c (p # q # ps) = p @ c # join c (q # ps)"

text \<open>
  \<^verbatim>\<open>s.trim()\<close>, for the ASCII white space characters (tab, line feed, vertical tab,
  form feed, carriage return, space).
\<close>

definition isSpace :: "char \<Rightarrow> bool" where
  "isSpace c = (let n = (of_char c :: nat) in (9 \<le> n \<and> n \<le> 13) \<or> n = 32)"

definition trim :: "string \<Rightarrow> string" where
  "trim s = rev (dropWhile isSpace (rev (dropWhile isSpace s)))"

text \<open>\<^verbatim>\<open>s.replace(/\n/g, '')\<close> and \<^verbatim>\<open>s.replace(/[\n ]/g, '')\<close>.\<close>

definition removeNewlines :: "string \<Rightarrow> string" where
  "removeNewlines s = filter (\<lambda>c. c \<noteq> CHR 0x0A) s"

definition removeNewlinesAndSpaces :: "string \<Rightarrow> string" where
  "removeNewlinesAndSpaces s = filter (\<lambda>c. c \<noteq> CHR 0x0A \<and> c \<noteq> CHR '' '') s"

section \<open>Data model\<close>

text \<open>
  \<^verbatim>\<open>TFile\<close> of the host, with the fields the code reads: \<^verbatim>\<open>path\<close>, \<^verbatim>\<open>basename\<close>,
  \<^verbatim>\<open>extension\<close>, \<^verbatim>\<open>stat.mtime\<close> and \<^verbatim>\<open>stat.ctime\<close>.
\<close>

record TFile =
  path :: string
  basename :: string
  extension :: string
  stat_mtime :: int
  stat_ctime :: int

text \<open>\<^verbatim>\<open>FileCache\<close>: what is remembered of one file (the field \<^verbatim>\<open>file\<close> is \<open>fcFile\<close>).\<close>

record FileCache =
  fcFile :: TFile
  links :: "string list"
  tags :: "string list"

text \<open>\<^verbatim>\<open>ViewItem\<close>: one entry of the flat item list. The field names of the source that
  are taken by the records above carry the prefix \<^verbatim>\<open>item\<close>.\<close>

record ViewItem =
  itemTags :: "string list"
  extraTags :: "string list"
  itemPath :: string
  displayName :: string
  ancestors :: "string list"
  mtime :: int
  ctime :: int
  filename :: string
  itemLinks :: "string list"

datatype DISPLAY_METHOD = PATH_NAME | NAME | NAME_PATH

text \<open>The fields of \<^verbatim>\<open>TagFolderSettings\<close> that the modelled functions read.\<close>

record TagFolderSettings =
  sortType :: string
  ignoreDocTags :: string
  ignoreTags :: string
  ignoreFolders :: string
  targetFolders :: string
  archiveTags :: string
  useTagInfo :: bool
  disableNestedTags :: bool
  useVirtualTag :: bool
  displayFolderAsTag :: bool
  disableNarrowingDown :: bool
  useTitle :: bool
  displayMethod :: DISPLAY_METHOD
  customTagKey :: string

text \<open>
  An entry of \<^verbatim>\<open>TagInfoDict\<close>; of its fields (\<^verbatim>\<open>key\<close>, \<^verbatim>\<open>mark\<close>, \<^verbatim>\<open>alt\<close>,
  \<^verbatim>\<open>redirect\<close>) the modelled code reads \<^verbatim>\<open>redirect\<close> only.
\<close>

record TagInfo =
  redirect :: "string option"

text \<open>
  A value of the front matter: a string, an array, or anything else (a number, an
  object, \<^verbatim>\<open>undefined\<close>).
\<close>

datatype FmValue = FmString string | FmArray "FmValue list" | FmOther

text \<open>
  \<^verbatim>\<open>CachedMetadata\<close> of the host, as far as the code reads it: the result of the host's
  \<^verbatim>\<open>getAllTags\<close> (\<open>None\<close> for \<^verbatim>\<open>null\<close>), the front matter as a list of keys and
  values, the headings as pairs of level and text, and \<open>mdTitle\<close>, the string
  \<^verbatim>\<open>`${d}`\<close> for \<^verbatim>\<open>d = dotted(metadata.frontmatter, settings.frontmatterKey)\<close> when the
  front matter and the key are set and \<^verbatim>\<open>d\<close> is truthy (\<open>None\<close> otherwise).
\<close>

record CachedMetadata =
  mdAllTags :: "string list option"
  mdFrontmatter :: "(string \<times> FmValue) list option"
  mdHeadings :: "(nat \<times> string) list option"
  mdTitle :: "string option"

text \<open>
  What the modelled functions take from outside \<^verbatim>\<open>main.ts\<close>:
  \<^item> \<open>loadedFiles\<close>: the files of \<^verbatim>\<open>app.vault.getAllLoadedFiles()\<close> (its folders are
    left out: they are no \<^verbatim>\<open>TFile\<close> and have no \<^verbatim>\<open>extension\<close>);
  \<^item> \<open>metadataCache\<close>: \<^verbatim>\<open>app.metadataCache\<close>, the metadata stored for a path;
  \<^item> \<open>linkViewOpen\<close>: whether \<^verbatim>\<open>getLinkView()\<close> finds a view;
  \<^item> \<open>parseAllReference\<close>: the result of \<^verbatim>\<open>parseAllReference(resolvedLinks, path, linkConfig)\<close>
    of \<^verbatim>\<open>util\<close> for a path;
  \<^item> \<open>secondsToFreshness\<close>: the function of that name of \<^verbatim>\<open>util\<close>;
  \<^item> \<open>dateNow\<close>: the value of \<^verbatim>\<open>Date.now()\<close>;
  \<^item> \<open>inheritedText\<close>: the string that the host gives for the member of
    \<^verbatim>\<open>Object.prototype\<close> of a name when the member is used as a property key (for a
    function, its source text).
\<close>

record Host =
  loadedFiles :: "TFile list"
  metadataCache :: "(string \<times> CachedMetadata) list"
  linkViewOpen :: bool
  parseAllReference :: "string \<Rightarrow> string list"
  secondsToFreshness :: "int \<Rightarrow> string"
  dateNow :: int
  inheritedText :: "string \<Rightarrow> string"

datatype Mode = TagMode | LinkMode

text \<open>
  The fields of the plugin object that the item list and the file caches use.
  \<open>oldFileCache\<close> holds the list that the source serialises with
  \<^verbatim>\<open>JSON.stringify\<close> (\<open>None\<close> for the initial empty string, which no serialisation
  equals); \<open>tagInfo\<close> is \<open>None\<close> for \<^verbatim>\<open>null\<close>.
\<close>

record Plugin =
  settings :: TagFolderSettings
  tagInfo :: "(string \<times> TagInfo) list option"
  searchString :: string
  fileCaches :: "FileCache list"
  oldFileCache :: "(string \<times> string list \<times> string list) list option"
  parsedFileCache :: "string \<rightharpoonup> int"
  compareItems :: "ViewItem \<Rightarrow> ViewItem \<Rightarrow> int"
  allViewItems :: "ViewItem list"
  allViewItemsByLink :: "ViewItem list"

section \<open>The item comparator\<close>

text \<open>
  \<^verbatim>\<open>getCompareMethodItems\<close> (main.ts, lines 91 to 113). The string comparison
  \<^verbatim>\<open>compare\<close> comes from \<^verbatim>\<open>util\<close> and is the parameter \<open>cmp\<close>. The \<^verbatim>\<open>switch\<close> has
  five pairs of cases and a \<^verbatim>\<open>default\<close>; every branch multiplies by \<^verbatim>\<open>invert\<close>, which
  is \<open>-1\<close> when the sort type contains \<^verbatim>\<open>_DESC\<close>.
\<close>

definition invert :: "TagFolderSettings \<Rightarrow> int" where
  "invert cfg = (if contains (sortType cfg) ''_DESC'' then - 1 else 1)"

definition getCompareMethodItems ::
  "(string \<Rightarrow> string \<Rightarrow> int) \<Rightarrow> TagFolderSettings \<Rightarrow> ViewItem \<Rightarrow> ViewItem \<Rightarrow> int" where
  "getCompareMethodItems cmp cfg =
     (let inv = invert cfg; s = sortType cfg in
      if s = ''DISPNAME_ASC'' \<or> s = ''DISPNAME_DESC'' then
        (\<lambda>a b. cmp (displayName a) (displayName b) * inv)
      else if s = ''FULLPATH_ASC'' \<or> s = ''FULLPATH_DESC'' then
        (\<lambda>a b. cmp (itemPath a) (itemPath b) * inv)
      else if s = ''MTIME_ASC'' \<or> s = ''MTIME_DESC'' then
        (\<lambda>a b. (mtime a - mtime b) * inv)
      else if s = ''CTIME_ASC'' \<or> s = ''CTIME_DESC'' then
        (\<lambda>a b. (ctime a - ctime b) * inv)
      else if s = ''NAME_ASC'' \<or> s = ''NAME_DESC'' then
        (\<lambda>a b. cmp (filename a) (filename b) * inv)
      else
        (\<lambda>a b. cmp (displayName a) (displayName b) * inv))"

text \<open>The sort types that the \<^verbatim>\<open>switch\<close> names.\<close>

definition recognizedSortType :: "string \<Rightarrow> bool" where
  "recognizedSortType s =
     (s \<in> set [''DISPNAME_ASC'', ''DISPNAME_DESC'', ''FULLPATH_ASC'', ''FULLPATH_DESC'',
               ''MTIME_ASC'', ''MTIME_DESC'', ''CTIME_ASC'', ''CTIME_DESC'',
               ''NAME_ASC'', ''NAME_DESC''])"

text \<open>
  Modelled from the spec: \<^verbatim>\<open>compare\<close> of \<^verbatim>\<open>util\<close> is not among the sources. The
  specification gives it as a comparison of two strings with a result in \<open>{-1, 0, 1}\<close>;
  here it is the lexicographic order of the character codes. It is used only to run the
  comparator on concrete items.
\<close>

fun compare :: "string \<Rightarrow> string \<Rightarrow> int" where
  "compare [] [] = 0"
| "compare [] (y # ys) = - 1"
| "compare (x # xs) [] = 1"
| "compare (x # xs) (y # ys) =
     (if (of_char x :: nat) < of_char y then - 1
      else if (of_char y :: nat) < of_char x then 1
      else compare xs ys)"

section \<open>Helpers of the module util\<close>

text \<open>
  Modelled from the spec: \<^verbatim>\<open>unique\<close> of \<^verbatim>\<open>util\<close> is not among the sources. The
  specification treats tag and link collections as sets built from sequences; the
  model removes repeated elements and keeps each element at its first position.
\<close>

primrec unique :: "'a list \<Rightarrow> 'a list" where
  "unique [] = []"
| "unique (x # xs) = x # filter (\<lambda>y. y \<noteq> x) (unique xs)"

text \<open>
  Modelled from the spec: \<^verbatim>\<open>uniqueCaseIntensive\<close> of \<^verbatim>\<open>util\<close> is not among the
  sources. The specification: "deduplicate case-insensitively, preserving first-seen
  casing". It is a function of string lists; comparing without regard to case lower-cases
  every element, which raises an error for an element that is no string (\<open>stringTags\<close>
  below).
\<close>

primrec uniqueCaseIntensive :: "string list \<Rightarrow> string list" where
  "uniqueCaseIntensive [] = []"
| "uniqueCaseIntensive (x # xs) =
     x # filter (\<lambda>y. toLowerCase y \<noteq> toLowerCase x) (uniqueCaseIntensive xs)"

text \<open>
  Modelled from the spec: \<^verbatim>\<open>fileCacheToCompare\<close> of \<^verbatim>\<open>util\<close> is not among the
  sources. The specification compares "the externally-observable projection (path,
  tags, links triple, serialized canonically)"; a missing cache has no projection.
\<close>

definition fileCacheToCompare ::
  "FileCache option \<Rightarrow> (string \<times> string list \<times> string list) option" where
  "fileCacheToCompare c = map_option (\<lambda>e. (path (fcFile e), tags e, links e)) c"

section \<open>Titles and display names\<close>

text \<open>\<^verbatim>\<open>app.metadataCache.getFileCache(file)\<close> and \<^verbatim>\<open>getCache(path)\<close>: a lookup by path.\<close>

definition getCache :: "Host \<Rightarrow> string \<Rightarrow> CachedMetadata option" where
  "getCache host p = map_of (metadataCache host) p"

definition getFileCache :: "Host \<Rightarrow> TFile \<Rightarrow> CachedMetadata option" where
  "getFileCache host f = getCache host (path f)"

text \<open>\<^verbatim>\<open>getFileTitle\<close> (lines 196 to 210).\<close>

definition getFileTitle :: "TagFolderSettings \<Rightarrow> Host \<Rightarrow> TFile \<Rightarrow> string" where
  "getFileTitle cfg host f =
     (if \<not> useTitle cfg then basename f
      else (case getCache host (path f) of
              None \<Rightarrow> basename f
            | Some metadata \<Rightarrow>
                (case mdTitle metadata of
                   Some d \<Rightarrow> d
                 | None \<Rightarrow>
                     (case mdHeadings metadata of
                        None \<Rightarrow> basename f
                      | Some hs \<Rightarrow>
                          (case find (\<lambda>e. fst e = 1) hs of
                             Some h1 \<Rightarrow> snd h1
                           | None \<Rightarrow> basename f)))))"

text \<open>\<^verbatim>\<open>getDisplayName\<close> (lines 212 to 228); \<^verbatim>\<open>a || b\<close> takes \<^verbatim>\<open>b\<close> for the empty string.\<close>

definition getDisplayName :: "TagFolderSettings \<Rightarrow> Host \<Rightarrow> TFile \<Rightarrow> string" where
  "getDisplayName cfg host f =
     (let t = getFileTitle cfg host f;
          fname = (if t = [] then basename f else t);
          displayPath = join CHR ''/'' (butlast (split CHR ''/'' (path f)))
      in case displayMethod cfg of
           NAME \<Rightarrow> fname
         | NAME_PATH \<Rightarrow> fname @ '' : '' @ displayPath
         | PATH_NAME \<Rightarrow> displayPath @ ''/'' @ fname)"

section \<open>The item list\<close>

text \<open>
  The lists that \<^verbatim>\<open>getItemsList\<close> parses from the settings (lines 555 to 577):
  \<^verbatim>\<open>ignoreDocTags\<close>, \<^verbatim>\<open>ignoreTags\<close> and \<^verbatim>\<open>archiveTags\<close> are lower-cased, stripped of line
  feeds and spaces and split at commas; the two folder lists are lower-cased, stripped of
  line feeds, split at commas, trimmed, and their empty entries dropped; the search
  string is lower-cased and split at \<^verbatim>\<open>|\<close> and then at spaces.
\<close>

definition parseTagList :: "string \<Rightarrow> string list" where
  "parseTagList s = split CHR '','' (removeNewlinesAndSpaces (toLowerCase s))"

definition parseFolderList :: "string \<Rightarrow> string list" where
  "parseFolderList s =
     filter (\<lambda>e. e \<noteq> []) (map trim (split CHR '','' (removeNewlines (toLowerCase s))))"

definition parseSearchItems :: "string \<Rightarrow> string list list" where
  "parseSearchItems s =
     map (\<lambda>ee. map trim (split CHR '' '' ee)) (split CHR ''|'' (toLowerCase s))"

text \<open>The two folder tests of lines 580 to 590; each of them skips the file.\<close>

definition outsideTargetFolders :: "string list \<Rightarrow> FileCache \<Rightarrow> bool" where
  "outsideTargetFolders targets fileCache =
     (length targets > 0 \<and>
      \<not> list_ex (\<lambda>e. e \<noteq> [] \<and> startsWith (toLowerCase (path (fcFile fileCache))) e) targets)"

definition insideIgnoreFolders :: "string list \<Rightarrow> FileCache \<Rightarrow> bool" where
  "insideIgnoreFolders ignores fileCache =
     list_ex (\<lambda>e. e \<noteq> [] \<and> startsWith (toLowerCase (path (fcFile fileCache))) e) ignores"

text \<open>
  \<^verbatim>\<open>tagRedirectList\<close> (lines 592 to 599): an object literal that receives the entries of
  \<^verbatim>\<open>tagInfo\<close> with a truthy \<^verbatim>\<open>redirect\<close>, when \<^verbatim>\<open>useTagInfo\<close> is set. The map holds its
  own properties. An assignment to the key \<^verbatim>\<open>__proto__\<close> reaches the setter of
  \<^verbatim>\<open>Object.prototype\<close>, which ignores a string, and so adds no property.
\<close>

definition tagRedirectList :: "Plugin \<Rightarrow> (string \<rightharpoonup> string)" where
  "tagRedirectList p =
     (case tagInfo p of
        None \<Rightarrow> Map.empty
      | Some entries \<Rightarrow>
          if useTagInfo (settings p) then
            fold (\<lambda>(k, taginfo) m.
                    (case redirect taginfo of
                       None \<Rightarrow> m
                     | Some r \<Rightarrow> if r = [] \<or> k = ''__proto__'' then m else m(k \<mapsto> r)))
                 entries Map.empty
          else Map.empty)"

text \<open>
  The expression \<^verbatim>\<open>e in tagRedirectList ? tagRedirectList[e] : e\<close> (lines 605 and 639).
  The operator \<^verbatim>\<open>in\<close> also finds the properties that the object inherits from
  \<^verbatim>\<open>Object.prototype\<close>, and the lookup then yields the inherited member, a function or
  an object and no string. A tag is therefore a string or such a member, named by its
  property name. Used as a property key, a member is converted to a string by the host
  (\<open>inheritedText\<close>).
\<close>

datatype TagValue = TagString string | TagObject string

definition inheritedNames :: "string list" where
  "inheritedNames =
     [''constructor'', ''hasOwnProperty'', ''isPrototypeOf'', ''propertyIsEnumerable'',
      ''toLocaleString'', ''toString'', ''valueOf'', ''__proto__'', ''__defineGetter__'',
      ''__defineSetter__'', ''__lookupGetter__'', ''__lookupSetter__'']"

definition propertyKey :: "Host \<Rightarrow> TagValue \<Rightarrow> string" where
  "propertyKey host e = (case e of TagString s \<Rightarrow> s | TagObject n \<Rightarrow> inheritedText host n)"

definition redirectTag :: "Host \<Rightarrow> (string \<rightharpoonup> string) \<Rightarrow> TagValue \<Rightarrow> TagValue" where
  "redirectTag host m e =
     (case m (propertyKey host e) of
        Some r \<Rightarrow> TagString r
      | None \<Rightarrow>
          if List.member inheritedNames (propertyKey host e)
          then TagObject (propertyKey host e) else e)"

text \<open>
  A method of strings called on a value that is no string raises \<^verbatim>\<open>TypeError\<close>:
  \<^verbatim>\<open>e.split('/')\<close> in line 611, and the lower-casing of every tag when the duplicates
  are removed in line 639.
\<close>

datatype Error = TypeError

primrec flatSplit :: "TagValue list \<Rightarrow> Error + TagValue list" where
  "flatSplit [] = Inr []"
| "flatSplit (e # es) =
     (case e of
        TagObject _ \<Rightarrow> Inl TypeError
      | TagString s \<Rightarrow>
          (case flatSplit es of
             Inl err \<Rightarrow> Inl err
           | Inr rest \<Rightarrow> Inr (map TagString (split CHR ''/'' s) @ rest)))"

primrec stringTags :: "TagValue list \<Rightarrow> Error + string list" where
  "stringTags [] = Inr []"
| "stringTags (e # es) =
     (case e of
        TagObject _ \<Rightarrow> Inl TypeError
      | TagString s \<Rightarrow>
          (case stringTags es of Inl err \<Rightarrow> Inl err | Inr rest \<Rightarrow> Inr (s # rest)))"

text \<open>
  The tags of one file cache as they stand after line 639. First (lines 601 to 619) the
  raw tags without their marker, redirected (tag mode), or the links (link mode); the
  split of nested tags; the sentinel for an empty list. Then (lines 620 to 636) the
  virtual tags pushed after them. Last (line 639) the second redirection and the
  case-insensitive removal of duplicates.
\<close>

definition documentTags :: "Mode \<Rightarrow> Host \<Rightarrow> Plugin \<Rightarrow> FileCache \<Rightarrow> Error + TagValue list" where
  "documentTags mode host p fileCache =
     (let t0 = (if mode = TagMode
                then unique (map (redirectTag host (tagRedirectList p))
                               (map (\<lambda>e. TagString (substring1 e)) (unique (tags fileCache))))
                else map TagString (unique (links fileCache)))
      in case (if disableNestedTags (settings p) \<and> mode = TagMode then flatSplit t0 else Inr t0) of
           Inl err \<Rightarrow> Inl err
         | Inr t1 \<Rightarrow>
             Inr (if length t1 = 0
                  then (case mode of TagMode \<Rightarrow> [TagString ''_untagged'']
                                   | LinkMode \<Rightarrow> [TagString ''_unlinked''])
                  else t1))"

definition virtualTags :: "Host \<Rightarrow> Plugin \<Rightarrow> FileCache \<Rightarrow> string list" where
  "virtualTags host p fileCache =
     (if extension (fcFile fileCache) = ''canvas'' then [''_VIRTUAL_TAG_CANVAS''] else []) @
     (if useVirtualTag (settings p)
      then [''_VIRTUAL_TAG_FRESHNESS/'' @
              secondsToFreshness host (dateNow host - stat_mtime (fcFile fileCache))]
      else []) @
     (if displayFolderAsTag (settings p)
      then (let folder = butlast (''_VIRTUAL_TAG_FOLDER'' # split CHR ''/'' (path (fcFile fileCache)))
            in if length folder > 0 then [join CHR ''/'' folder] else [])
      else [])"

definition resolvedTags :: "Mode \<Rightarrow> Host \<Rightarrow> Plugin \<Rightarrow> FileCache \<Rightarrow> Error + string list" where
  "resolvedTags mode host p fileCache =
     (case documentTags mode host p fileCache of
        Inl err \<Rightarrow> Inl err
      | Inr t2 \<Rightarrow>
          (case stringTags (map (redirectTag host (tagRedirectList p))
                              (t2 @ map TagString (virtualTags host p fileCache))) of
             Inl err \<Rightarrow> Inl err
           | Inr allTags \<Rightarrow> Inr (uniqueCaseIntensive allTags)))"

text \<open>
  The search filter (lines 646 to 668). One group of search terms gives \<open>True\<close> when the
  file fails it; the file is skipped when every group gives \<open>True\<close>.
\<close>

definition searchTermFails :: "string list \<Rightarrow> string \<Rightarrow> bool" where
  "searchTermFails allTagsTitle searchSrc =
     (let hashed = startsWith searchSrc ''#'';
          search = (if hashed then substring1 searchSrc else searchSrc);
          func = (if hashed then startsWith else contains)
      in if startsWith search ''-''
         then list_ex (\<lambda>tag. func (toLowerCase tag) (substring1 search)) allTagsTitle
         else list_all (\<lambda>tag. \<not> func (toLowerCase tag) search) allTagsTitle)"

definition searchGroupFails :: "string list \<Rightarrow> string list \<Rightarrow> bool" where
  "searchGroupFails allTagsTitle searchItem =
     (if length allTagsTitle = 0 then False
      else fold (\<lambda>searchSrc bx. bx \<or> searchTermFails allTagsTitle searchSrc) searchItem False)"

definition searchExcludes :: "Host \<Rightarrow> Plugin \<Rightarrow> FileCache \<Rightarrow> string list \<Rightarrow> bool" where
  "searchExcludes host p fileCache allTags =
     list_all (\<lambda>searchItem.
        searchGroupFails (allTags @ [getFileTitle (settings p) host (fcFile fileCache)]) searchItem)
       (parseSearchItems (searchString p))"

text \<open>The object literal of lines 682 to 692 and 695 to 705.\<close>

definition viewItem :: "Host \<Rightarrow> Plugin \<Rightarrow> FileCache \<Rightarrow> string list \<Rightarrow> string list \<Rightarrow> ViewItem" where
  "viewItem host p fileCache ts extras =
     \<lparr> itemTags = ts, extraTags = extras, itemPath = path (fcFile fileCache),
       displayName = getDisplayName (settings p) host (fcFile fileCache),
       ancestors = [], mtime = stat_mtime (fcFile fileCache),
       ctime = stat_ctime (fcFile fileCache), filename = basename (fcFile fileCache),
       itemLinks = (if length (links fileCache) = 0 then [''_unlinked''] else links fileCache) \<rparr>"

text \<open>
  The tags of line 670 (the resolved tags without the ignored ones) and the items pushed
  for them (lines 676 to 706).
\<close>

definition effectiveTags :: "Mode \<Rightarrow> Host \<Rightarrow> Plugin \<Rightarrow> FileCache \<Rightarrow> Error + string list" where
  "effectiveTags mode host p fileCache =
     (case resolvedTags mode host p fileCache of
        Inl err \<Rightarrow> Inl err
      | Inr allTags \<Rightarrow>
          Inr (filter (\<lambda>tag. \<not> List.member (parseTagList (ignoreTags (settings p))) (toLowerCase tag))
                 allTags))"

definition expandItems :: "Mode \<Rightarrow> Host \<Rightarrow> Plugin \<Rightarrow> FileCache \<Rightarrow> string list \<Rightarrow> ViewItem list" where
  "expandItems mode host p fileCache allTags =
     (if disableNarrowingDown (settings p) \<and> mode = TagMode then
        (let archiveTagsMatched =
               filter (\<lambda>e. List.member (parseTagList (archiveTags (settings p))) (toLowerCase e)) allTags;
             targetTags = (if length archiveTagsMatched = 0 then allTags else archiveTagsMatched)
         in map (\<lambda>t. viewItem host p fileCache [t] (filter (\<lambda>e. e \<noteq> t) allTags)) targetTags)
      else [viewItem host p fileCache allTags []])"

text \<open>
  The body of the loop over \<^verbatim>\<open>this.fileCaches\<close> (lines 579 to 707): the items that one
  file cache adds, or the error that it raises; each \<^verbatim>\<open>continue\<close> adds no item.
\<close>

definition fileItems :: "Mode \<Rightarrow> Host \<Rightarrow> Plugin \<Rightarrow> FileCache \<Rightarrow> Error + ViewItem list" where
  "fileItems mode host p fileCache =
     (if outsideTargetFolders (parseFolderList (targetFolders (settings p))) fileCache then Inr []
      else if insideIgnoreFolders (parseFolderList (ignoreFolders (settings p))) fileCache then Inr []
      else (case resolvedTags mode host p fileCache of
              Inl err \<Rightarrow> Inl err
            | Inr allTags \<Rightarrow>
                if list_ex (\<lambda>tag. List.member (parseTagList (ignoreDocTags (settings p)))
                                    (toLowerCase tag)) allTags then Inr []
                else if searchExcludes host p fileCache allTags then Inr []
                else Inr (expandItems mode host p fileCache
                       (filter (\<lambda>tag. \<not> List.member (parseTagList (ignoreTags (settings p)))
                                         (toLowerCase tag)) allTags))))"

text \<open>
  The predicate of the four \<^verbatim>\<open>continue\<close> statements of the loop of \<^verbatim>\<open>getItemsList\<close>:
  the file is outside the target folders, inside an ignored folder, carries a tag of
  \<^verbatim>\<open>ignoreDocTags\<close>, or fails the search.
\<close>

definition fileSkipped :: "Mode \<Rightarrow> Host \<Rightarrow> Plugin \<Rightarrow> FileCache \<Rightarrow> bool" where
  "fileSkipped mode host p fileCache =
     (outsideTargetFolders (parseFolderList (targetFolders (settings p))) fileCache \<or>
      insideIgnoreFolders (parseFolderList (ignoreFolders (settings p))) fileCache \<or>
      (case resolvedTags mode host p fileCache of
         Inl err \<Rightarrow> False
       | Inr allTags \<Rightarrow>
           list_ex (\<lambda>tag. List.member (parseTagList (ignoreDocTags (settings p))) (toLowerCase tag))
             allTags \<or>
           searchExcludes host p fileCache allTags))"

text \<open>
  \<^verbatim>\<open>getItemsList\<close> (lines 553 to 709). The loop goes through the file caches in their
  order and appends the items of each to \<^verbatim>\<open>items\<close>; an error raised for one file ends
  the call, and nothing is returned. The function is asynchronous only to yield to the
  host between two files (\<^verbatim>\<open>await doEvents()\<close>).
\<close>

primrec getItemsLoop ::
  "Mode \<Rightarrow> Host \<Rightarrow> Plugin \<Rightarrow> FileCache list \<Rightarrow> ViewItem list \<Rightarrow> Error + ViewItem list" where
  "getItemsLoop mode host p [] items = Inr items"
| "getItemsLoop mode host p (fileCache # rest) items =
     (case fileItems mode host p fileCache of
        Inl err \<Rightarrow> Inl err
      | Inr pushed \<Rightarrow> getItemsLoop mode host p rest (items @ pushed))"

definition getItemsList :: "Mode \<Rightarrow> Host \<Rightarrow> Plugin \<Rightarrow> Error + ViewItem list" where
  "getItemsList mode host p = getItemsLoop mode host p (fileCaches p) []"

text \<open>The items that a call returns: none when it raises an error.\<close>

definition returnedItems :: "Error + ViewItem list \<Rightarrow> ViewItem list" where
  "returnedItems r = (case r of Inl err \<Rightarrow> [] | Inr items \<Rightarrow> items)"

section \<open>Publishing the sorted list\<close>

text \<open>
  \<^verbatim>\<open>Array.prototype.sort\<close> with a comparison function: a stable sort, here by
  insertion. An element is put before the first element that it does not follow.
\<close>

primrec insertItem :: "('a \<Rightarrow> 'a \<Rightarrow> int) \<Rightarrow> 'a \<Rightarrow> 'a list \<Rightarrow> 'a list" where
  "insertItem cmp x [] = [x]"
| "insertItem cmp x (y # ys) = (if cmp x y \<le> 0 then x # y # ys else y # insertItem cmp x ys)"

definition sortItems :: "('a \<Rightarrow> 'a \<Rightarrow> int) \<Rightarrow> 'a list \<Rightarrow> 'a list" where
  "sortItems cmp xs = foldr (insertItem cmp) xs []"

text \<open>
  \<^verbatim>\<open>applyFileInfoToView\<close> (lines 758 to 770): the plugin after the call, and the error
  if \<^verbatim>\<open>getItemsList\<close> raised one. An error of the first call leaves the plugin as it
  was; an error of the second call leaves the list of the tag view assigned. The call
  \<^verbatim>\<open>updateItemsLinkMap(itemsLink)\<close> updates a table of \<^verbatim>\<open>util\<close> that none of the
  modelled functions reads.
\<close>

definition applyFileInfoToView :: "Host \<Rightarrow> Plugin \<Rightarrow> Plugin \<times> Error option" where
  "applyFileInfoToView host p =
     (case getItemsList TagMode host p of
        Inl err \<Rightarrow> (p, Some err)
      | Inr items \<Rightarrow>
          (let p1 = p\<lparr>allViewItems := sortItems (compareItems p) items\<rparr>
           in if linkViewOpen host
              then (case getItemsList LinkMode host p1 of
                      Inl err \<Rightarrow> (p1, Some err)
                    | Inr itemsLink \<Rightarrow>
                        (p1\<lparr>allViewItemsByLink := sortItems (compareItems p1) itemsLink\<rparr>, None))
              else (p1, None)))"

section \<open>The file caches\<close>

text \<open>
  \<^verbatim>\<open>getFileCacheLinks\<close> (lines 450 to 457): no links without a link view; otherwise the
  references of the file that end in \<^verbatim>\<open>.md\<close>.
\<close>

definition getFileCacheLinks :: "Host \<Rightarrow> TFile \<Rightarrow> string list" where
  "getFileCacheLinks host f =
     (let allLinks = (if \<not> linkViewOpen host then [] else parseAllReference host (path f))
      in filter (\<lambda>e. endsWith e ''.md'') allLinks)"

text \<open>
  \<^verbatim>\<open>getFileCacheTags\<close> (lines 458 to 473): with a custom tag key other than \<^verbatim>\<open>tags\<close>,
  the strings of that front matter field, each with a leading \<^verbatim>\<open>#\<close>; otherwise the
  host's \<^verbatim>\<open>getAllTags\<close>.
\<close>

definition getFileCacheTags :: "TagFolderSettings \<Rightarrow> CachedMetadata \<Rightarrow> string list" where
  "getFileCacheTags cfg metadata =
     (if customTagKey cfg \<noteq> [] \<and> customTagKey cfg \<noteq> ''tags'' then
        (let customTag =
               (case mdFrontmatter metadata of
                  None \<Rightarrow> FmOther
                | Some fm \<Rightarrow> (case map_of fm (customTagKey cfg) of None \<Rightarrow> FmOther | Some v \<Rightarrow> v));
             pushed = (case customTag of FmArray vs \<Rightarrow> vs | v \<Rightarrow> [v])
         in concat (map (\<lambda>e. case e of FmString s \<Rightarrow> [CHR ''#'' # s] | _ \<Rightarrow> []) pushed))
      else (case mdAllTags metadata of None \<Rightarrow> [] | Some ts \<Rightarrow> ts))"

text \<open>\<^verbatim>\<open>getFileCacheData\<close> (lines 474 to 483); \<open>None\<close> stands for \<^verbatim>\<open>false\<close>.\<close>

definition getFileCacheData :: "TagFolderSettings \<Rightarrow> Host \<Rightarrow> TFile \<Rightarrow> FileCache option" where
  "getFileCacheData cfg host f =
     (case getFileCache host f of
        None \<Rightarrow> None
      | Some metadata \<Rightarrow>
          Some \<lparr> fcFile = f, links = getFileCacheLinks host f, tags = getFileCacheTags cfg metadata \<rparr>)"

text \<open>
  \<^verbatim>\<open>isFileCacheChanged\<close> (lines 494 to 508): compares the serialised paths, links and
  tags with those of the previous call and remembers the new ones.
\<close>

definition isFileCacheChanged :: "Plugin \<Rightarrow> bool \<times> Plugin" where
  "isFileCacheChanged p =
     (let fileCacheDump = map (\<lambda>e. (path (fcFile e), links e, tags e)) (fileCaches p)
      in if oldFileCache p = Some fileCacheDump then (False, p)
         else (True, p\<lparr>oldFileCache := Some fileCacheDump\<rparr>))"

text \<open>The files of the host: \<^verbatim>\<open>getMarkdownFiles()\<close> and \<^verbatim>\<open>getAbstractFileByPath(p)\<close>
  when its result is a \<^verbatim>\<open>TFile\<close>.\<close>

definition getMarkdownFiles :: "Host \<Rightarrow> TFile list" where
  "getMarkdownFiles host = filter (\<lambda>e. extension e = ''md'') (loadedFiles host)"

definition getAbstractFileByPath :: "Host \<Rightarrow> string \<Rightarrow> TFile option" where
  "getAbstractFileByPath host p = find (\<lambda>e. path e = p) (loadedFiles host)"

text \<open>
  \<^verbatim>\<open>updateFileCachesAll\<close> (lines 484 to 493). In the filter of line 489,
  \<^verbatim>\<open>this.parsedFileCache.get(file.path) ?? 0 != file.stat.mtime\<close>, the operator \<^verbatim>\<open>!=\<close>
  binds tighter than \<^verbatim>\<open>??\<close>: a recorded number is the result itself (truthy when it is
  not zero), and only without a record the result is \<^verbatim>\<open>0 != file.stat.mtime\<close>. The new
  \<^verbatim>\<open>fileCaches\<close> are the caches of the files that pass the filter.
\<close>

definition needsProcessing :: "Plugin \<Rightarrow> TFile \<Rightarrow> bool" where
  "needsProcessing p f =
     (case parsedFileCache p (path f) of Some n \<Rightarrow> n \<noteq> 0 | None \<Rightarrow> 0 \<noteq> stat_mtime f)"

definition updateFileCachesAll :: "Host \<Rightarrow> Plugin \<Rightarrow> bool \<times> Plugin" where
  "updateFileCachesAll host p =
     (let filesAll = getMarkdownFiles host @ filter (\<lambda>e. extension e = ''canvas'') (loadedFiles host);
          processFiles = filter (needsProcessing p) filesAll;
          caches = List.map_filter (getFileCacheData (settings p) host) processFiles
      in isFileCacheChanged (p\<lparr>fileCaches := caches\<rparr>))"

text \<open>
  The loop of \<^verbatim>\<open>updateFileCaches\<close> (lines 516 to 548). Its state is the queue
  \<^verbatim>\<open>processDiffs\<close> (an entry may be \<^verbatim>\<open>undefined\<close>), the list \<^verbatim>\<open>newCaches\<close>, the flag
  \<^verbatim>\<open>anyUpdated\<close> and the current \<^verbatim>\<open>diff\<close>.
\<close>

record SweepState =
  processDiffs :: "TFile option list"
  newCaches :: "FileCache list"
  anyUpdated :: bool
  diff :: "TFile option"

text \<open>\<^verbatim>\<open>xs.shift()\<close>: the first element and the rest; \<^verbatim>\<open>undefined\<close> for the empty list.\<close>

definition shift :: "'a option list \<Rightarrow> 'a option \<times> 'a option list" where
  "shift xs = (case xs of [] \<Rightarrow> (None, []) | x # rest \<Rightarrow> (x, rest))"

text \<open>
  Lines 534 to 536: the links that are in only one of the old and the new list, in the
  order of \<^verbatim>\<open>unique([...oldLinks, ...newLinks])\<close>.
\<close>

definition changedLinks :: "string list \<Rightarrow> string list \<Rightarrow> string list" where
  "changedLinks oldLinks newLinks =
     filter (\<lambda>link. \<not> List.member oldLinks link \<or> \<not> List.member newLinks link)
       (unique (oldLinks @ newLinks))"

text \<open>Lines 537 to 540: the files pushed onto the queue for these links.\<close>

definition enqueuedFiles :: "Host \<Rightarrow> string list \<Rightarrow> string list \<Rightarrow> TFile list" where
  "enqueuedFiles host oldLinks newLinks =
     List.map_filter (getAbstractFileByPath host) (changedLinks oldLinks newLinks)"

text \<open>
  One run of the loop body for the file \<open>procDiff\<close> (lines 520 to 546). \<open>oldCache\<close>
  is the entry that \<^verbatim>\<open>find\<close> returns; \<open>pushedFiles\<close> are the files that lines 531 to
  541 push onto the queue. The filter \<^verbatim>\<open>fileCache !== old\<close> compares references: it
  removes the one entry that \<^verbatim>\<open>find\<close> returned, which is the first entry equal to it.
\<close>

definition oldCache :: "TFile \<Rightarrow> SweepState \<Rightarrow> FileCache option" where
  "oldCache procDiff st =
     find (\<lambda>fileCache. path (fcFile fileCache) = path procDiff) (newCaches st)"

definition pushedFiles :: "TagFolderSettings \<Rightarrow> Host \<Rightarrow> TFile \<Rightarrow> SweepState \<Rightarrow> TFile list" where
  "pushedFiles cfg host procDiff st =
     (case getFileCacheData cfg host procDiff of
        None \<Rightarrow> []
      | Some newCache \<Rightarrow>
          if linkViewOpen host
          then enqueuedFiles host
                 (case oldCache procDiff st of None \<Rightarrow> [] | Some old \<Rightarrow> links old)
                 (links newCache)
          else [])"

definition sweepBody :: "TagFolderSettings \<Rightarrow> Host \<Rightarrow> TFile \<Rightarrow> SweepState \<Rightarrow> SweepState" where
  "sweepBody cfg host procDiff st =
     (let old = oldCache procDiff st;
          caches1 = (case old of None \<Rightarrow> newCaches st | Some c \<Rightarrow> remove1 c (newCaches st));
          newCache = getFileCacheData cfg host procDiff;
          queue1 = processDiffs st @ map Some (pushedFiles cfg host procDiff st);
          caches2 = (case newCache of None \<Rightarrow> caches1 | Some c \<Rightarrow> caches1 @ [c]);
          updated = (anyUpdated st \<or> fileCacheToCompare old \<noteq> fileCacheToCompare newCache)
      in \<lparr> processDiffs = snd (shift queue1), newCaches = caches2, anyUpdated = updated,
           diff = fst (shift queue1) \<rparr>)"

text \<open>
  The loop \<^verbatim>\<open>do { ... } while (diff !== undefined)\<close>. Its body starts with
  \<^verbatim>\<open>if (!procDiff) break\<close>, so the loop runs its body exactly as long as \<^verbatim>\<open>diff\<close> is
  defined. A loop that does not end has the value \<open>None\<close>.
\<close>

partial_function (option) sweep :: "TagFolderSettings \<Rightarrow> Host \<Rightarrow> SweepState \<Rightarrow> SweepState option" where
  "sweep cfg host st =
     (case diff st of
        None \<Rightarrow> Some st
      | Some procDiff \<Rightarrow> sweep cfg host (sweepBody cfg host procDiff st))"

declare sweep.simps [code]

text \<open>\<^verbatim>\<open>updateFileCaches\<close> (lines 510 to 551): the result and the plugin after the call.\<close>

definition updateFileCaches :: "Host \<Rightarrow> TFile option list \<Rightarrow> Plugin \<Rightarrow> (bool \<times> Plugin) option" where
  "updateFileCaches host diffs p =
     (if length (fileCaches p) = 0 \<or> length diffs = 0 then Some (updateFileCachesAll host p)
      else (case sweep (settings p) host
                   \<lparr> processDiffs = snd (shift diffs), newCaches = fileCaches p,
                     anyUpdated = False, diff = fst (shift diffs) \<rparr> of
              None \<Rightarrow> None
            | Some st \<Rightarrow> Some (anyUpdated st, p\<lparr>fileCaches := newCaches st\<rparr>)))"

section \<open>The change scheduler\<close>

text \<open>
  The fields of the plugin object that schedule recomputation: \<^verbatim>\<open>loadFileQueue\<close>,
  \<^verbatim>\<open>loadFileTimer\<close> (the handle of the last \<^verbatim>\<open>setTimeout\<close>, \<open>None\<close> for
  \<^verbatim>\<open>undefined\<close>) and \<^verbatim>\<open>processingFileInfo\<close>. The host's side of the timers is
  \<open>pendingTimers\<close>, the handles that \<^verbatim>\<open>setTimeout\<close> has issued and that have neither fired
  nor been cleared, and \<open>timerCount\<close>, the number of handles issued (handles are
  positive, as in a browser).

  Three fields record what has happened, for the statements below:
  \<open>calls\<close> holds the argument of every call of \<^verbatim>\<open>loadFileInfos\<close>, \<open>started\<close> the
  argument of every call that entered the \<^verbatim>\<open>try\<close> block (a recompute pass; it stands
  for the pass's work, \<^verbatim>\<open>updateFileCaches(diffs)\<close> and the update of the views), and
  \<open>inFlight\<close> counts the passes that have entered the \<^verbatim>\<open>try\<close> block and not yet
  run the \<^verbatim>\<open>finally\<close> block.
\<close>

record Sched =
  loadFileQueue :: "TFile list"
  loadFileTimer :: "nat option"
  processingFileInfo :: bool
  pendingTimers :: "nat list"
  timerCount :: nat
  calls :: "TFile list list"
  started :: "TFile list list"
  inFlight :: nat

definition initialSched :: Sched where
  "initialSched = \<lparr> loadFileQueue = [], loadFileTimer = None, processingFileInfo = False,
     pendingTimers = [], timerCount = 0, calls = [], started = [], inFlight = 0 \<rparr>"

text \<open>\<^verbatim>\<open>if (this.loadFileTimer) clearTimeout(this.loadFileTimer)\<close>.\<close>

definition clearLoadFileTimer :: "Sched \<Rightarrow> Sched" where
  "clearLoadFileTimer s =
     (case loadFileTimer s of
        None \<Rightarrow> s
      | Some h \<Rightarrow> if h \<noteq> 0 then s\<lparr>pendingTimers := removeAll h (pendingTimers s)\<rparr> else s)"

text \<open>
  \<^verbatim>\<open>loadFileInfoAsync(diff)\<close> for a file (lines 783 to 800): the file joins the queue
  unless a file with its path is there, the timer is cleared and a new one is set.
\<close>

definition queueFile :: "TFile \<Rightarrow> Sched \<Rightarrow> Sched" where
  "queueFile d s =
     (let s1 = (if list_ex (\<lambda>e. path e = path d) (loadFileQueue s) then s
                else s\<lparr>loadFileQueue := loadFileQueue s @ [d]\<rparr>);
          s2 = clearLoadFileTimer s1;
          h = Suc (timerCount s2)
      in s2\<lparr>loadFileTimer := Some h, pendingTimers := pendingTimers s2 @ [h], timerCount := h\<rparr>)"

text \<open>
  \<^verbatim>\<open>loadFileInfos(diffs)\<close> up to its first suspension (lines 735 to 742): with the flag
  set, every file of \<open>diffs\<close> is handed to \<^verbatim>\<open>loadFileInfoAsync\<close>; otherwise the flag is
  set and the pass begins.
\<close>

definition loadFileInfos :: "TFile list \<Rightarrow> Sched \<Rightarrow> Sched" where
  "loadFileInfos diffs s =
     (let s1 = s\<lparr>calls := calls s @ [diffs]\<rparr>
      in if processingFileInfo s1 then fold queueFile diffs s1
         else s1\<lparr>processingFileInfo := True, started := started s1 @ [diffs],
                 inFlight := Suc (inFlight s1)\<rparr>)"

text \<open>
  The \<^verbatim>\<open>finally\<close> block of \<^verbatim>\<open>loadFileInfos\<close> (lines 754 to 756), which ends a pass
  whether its \<^verbatim>\<open>try\<close> block returned or threw.
\<close>

datatype Outcome = Returned | Threw

definition finishPass :: "Outcome \<Rightarrow> Sched \<Rightarrow> Sched" where
  "finishPass outcome s = s\<lparr>processingFileInfo := False, inFlight := inFlight s - 1\<rparr>"

text \<open>\<^verbatim>\<open>loadFileInfoAsync(diff)\<close> (lines 773 to 801).\<close>

definition loadFileInfoAsync :: "TFile option \<Rightarrow> Sched \<Rightarrow> Sched" where
  "loadFileInfoAsync d s =
     (case d of
        None \<Rightarrow>
          loadFileInfos []
            (let s1 = s\<lparr>loadFileQueue := []\<rparr>
             in case loadFileTimer s1 of
                  None \<Rightarrow> s1
                | Some h \<Rightarrow> if h \<noteq> 0 then (clearLoadFileTimer s1)\<lparr>loadFileTimer := None\<rparr> else s1)
      | Some f \<Rightarrow> queueFile f s)"

text \<open>The function given to \<^verbatim>\<open>setTimeout\<close> (lines 792 to 800).\<close>

definition timerCallback :: "Sched \<Rightarrow> Sched" where
  "timerCallback s =
     (if length (loadFileQueue s) = 0 then s
      else loadFileInfos (loadFileQueue s) (s\<lparr>loadFileQueue := []\<rparr>))"

text \<open>
  What can happen to the scheduler: a change notification for a file
  (\<^verbatim>\<open>metadataCacheChanged\<close>), a request without a file (\<^verbatim>\<open>refreshAllTree\<close>), a pending
  timer firing, and the end of the pass in flight. A timer that is not pending does not
  fire, and without a pass in flight no pass ends.
\<close>

datatype Event = Notify TFile | Rebuild | Fire nat | Finish Outcome

fun step :: "Event \<Rightarrow> Sched \<Rightarrow> Sched" where
  "step (Notify f) s = loadFileInfoAsync (Some f) s"
| "step Rebuild s = loadFileInfoAsync None s"
| "step (Fire h) s =
     (if List.member (pendingTimers s) h
      then timerCallback (s\<lparr>pendingTimers := removeAll h (pendingTimers s)\<rparr>) else s)"
| "step (Finish outcome) s = (if inFlight s = 0 then s else finishPass outcome s)"

definition run :: "Event list \<Rightarrow> Sched \<Rightarrow> Sched" where
  "run events s = fold step events s"

text \<open>
  What holds of the scheduler between two events: the queue holds each path once; at
  most one timer is pending, and it is the one whose handle \<^verbatim>\<open>loadFileTimer\<close> holds;
  a timer is pending whenever the queue is not empty; and the flag
  \<^verbatim>\<open>processingFileInfo\<close> is set exactly while one pass is in flight.
\<close>

definition schedInv :: "Sched \<Rightarrow> bool" where
  "schedInv s =
     (distinct (map path (loadFileQueue s)) \<and>
      (case pendingTimers s of
         [] \<Rightarrow> loadFileQueue s = []
       | h # rest \<Rightarrow> rest = [] \<and> loadFileTimer s = Some h \<and> h \<noteq> 0) \<and>
      inFlight s = (if processingFileInfo s then 1 else 0))"

section \<open>A measure for the loop of updateFileCaches\<close>

text \<open>
  The links that \<^verbatim>\<open>getFileCacheData\<close> gives for a path at present (\<open>None\<close> when the host
  has no metadata for it). A cache entry is stale when these differ from the links it
  holds; a path is missing when the host has metadata and links for it and no cache entry
  exists. Both are counted by \<open>sweepCost\<close>; \<open>sweepQueue\<close> counts the files still to be
  processed.
\<close>

definition currentLinks :: "Host \<Rightarrow> string \<Rightarrow> string list option" where
  "currentLinks host q =
     (case getCache host q of
        None \<Rightarrow> None
      | Some _ \<Rightarrow>
          Some (filter (\<lambda>e. endsWith e ''.md'')
                  (if \<not> linkViewOpen host then [] else parseAllReference host q)))"

definition staleEntry :: "Host \<Rightarrow> FileCache \<Rightarrow> bool" where
  "staleEntry host c =
     (case currentLinks host (path (fcFile c)) of
        None \<Rightarrow> False
      | Some l \<Rightarrow> changedLinks (links c) l \<noteq> [])"

definition missingPaths :: "Host \<Rightarrow> FileCache list \<Rightarrow> string set" where
  "missingPaths host caches =
     {q \<in> fst ` set (metadataCache host).
        q \<notin> (\<lambda>c. path (fcFile c)) ` set caches \<and>
        (\<exists>l. currentLinks host q = Some l \<and> l \<noteq> [])}"

definition sweepCost :: "Host \<Rightarrow> FileCache list \<Rightarrow> nat" where
  "sweepCost host caches =
     length (filter (staleEntry host) caches) + card (missingPaths host caches)"

definition sweepQueue :: "SweepState \<Rightarrow> nat" where
  "sweepQueue st = length (processDiffs st) + (case diff st of None \<Rightarrow> 0 | Some _ \<Rightarrow> 1)"

section \<open>Concrete values\<close>

text \<open>Values on which the definitions are run.\<close>

definition settings0 :: TagFolderSettings where
  "settings0 = \<lparr> sortType = ''DISPNAME_ASC'', ignoreDocTags = '''', ignoreTags = '''',
     ignoreFolders = '''', targetFolders = '''', archiveTags = '''', useTagInfo = False,
     disableNestedTags = False, useVirtualTag = False, displayFolderAsTag = False,
     disableNarrowingDown = False, useTitle = False, displayMethod = NAME,
     customTagKey = '''' \<rparr>"

definition mkItem :: "string \<Rightarrow> int \<Rightarrow> ViewItem" where
  "mkItem n t = \<lparr> itemTags = [''_untagged''], extraTags = [], itemPath = n @ ''.md'',
     displayName = n, ancestors = [], mtime = t, ctime = t, filename = n,
     itemLinks = [''_unlinked''] \<rparr>"

definition host0 :: Host where
  "host0 = \<lparr> loadedFiles = [], metadataCache = [], linkViewOpen = False,
     parseAllReference = (\<lambda>_. []), secondsToFreshness = (\<lambda>_. ''old''), dateNow = 1000,
     inheritedText = (\<lambda>n. ''function '' @ n @ ''() { [native code] }'') \<rparr>"

definition mkFile :: "string \<Rightarrow> int \<Rightarrow> TFile" where
  "mkFile n t = \<lparr> path = n @ ''.md'', basename = n, extension = ''md'', stat_mtime = t,
     stat_ctime = t \<rparr>"

definition mkCache :: "string \<Rightarrow> int \<Rightarrow> string list \<Rightarrow> string list \<Rightarrow> FileCache" where
  "mkCache n t ls ts = \<lparr> fcFile = mkFile n t, links = ls, tags = ts \<rparr>"

definition plugin0 :: Plugin where
  "plugin0 = \<lparr> settings = settings0, tagInfo = None, searchString = '''', fileCaches = [],
     oldFileCache = None, parsedFileCache = Map.empty, compareItems = (\<lambda>_ _. 0),
     allViewItems = [], allViewItemsByLink = [] \<rparr>"

definition pluginPQR :: Plugin where
  "pluginPQR = plugin0\<lparr>fileCaches := [mkCache ''a'' 5 [] [''#p'', ''#q'', ''#r'']]\<rparr>"

text \<open>
  The same vault with one more file, \<^verbatim>\<open>z.md\<close>, whose tag \<^verbatim>\<open>#constructor\<close> names a
  member that every object inherits.
\<close>

definition pluginInherited :: Plugin where
  "pluginInherited = plugin0\<lparr>fileCaches := [mkCache ''a'' 5 [] [''#p'', ''#q'', ''#r''],
     mkCache ''z'' 6 [] [''#constructor'']]\<rparr>"



definition pluginFolders :: Plugin where
  "pluginFolders = plugin0\<lparr>settings := settings0\<lparr>ignoreFolders := ''Archive/Old'',
       targetFolders := ''archive, notes''\<rparr>,
     fileCaches := [mkCache ''Archive/old/x'' 5 [] [''#t''], mkCache ''Notes/y'' 6 [] [''#t''],
                    mkCache ''misc/z'' 7 [] [''#t'']]\<rparr>"

text \<open>
  A tag information table with a chain of redirections: \<^verbatim>\<open>a\<close> to \<^verbatim>\<open>b\<close>, \<^verbatim>\<open>b\<close> to
  \<^verbatim>\<open>c\<close>, \<^verbatim>\<open>c\<close> to \<^verbatim>\<open>d\<close>.
\<close>

definition pluginChain :: Plugin where
  "pluginChain = plugin0\<lparr>settings := settings0\<lparr>useTagInfo := True\<rparr>,
     tagInfo := Some [(''a'', \<lparr>redirect = Some ''b''\<rparr>), (''b'', \<lparr>redirect = Some ''c''\<rparr>),
                      (''c'', \<lparr>redirect = Some ''d''\<rparr>)],
     fileCaches := [mkCache ''n'' 5 [] [''#a'']]\<rparr>"

text \<open>Two files with the same modification time, scanned in either order.\<close>

definition pluginTies :: "FileCache list \<Rightarrow> Plugin" where
  "pluginTies caches = plugin0\<lparr>settings := settings0\<lparr>sortType := ''MTIME_DESC''\<rparr>,
     compareItems := getCompareMethodItems compare (settings0\<lparr>sortType := ''MTIME_DESC''\<rparr>),
     fileCaches := caches\<rparr>"

text \<open>
  A host with a cyclic link graph: \<^verbatim>\<open>A.md\<close> refers to \<^verbatim>\<open>B.md\<close> and \<^verbatim>\<open>B.md\<close> to
  \<^verbatim>\<open>A.md\<close>; a link view is open. The plugin holds caches of both files without links.
\<close>

definition noMetadata :: CachedMetadata where
  "noMetadata = \<lparr> mdAllTags = Some [], mdFrontmatter = None, mdHeadings = None, mdTitle = None \<rparr>"

definition hostCycle :: Host where
  "hostCycle = host0\<lparr> loadedFiles := [mkFile ''A'' 1, mkFile ''B'' 1],
     metadataCache := [(''A.md'', noMetadata), (''B.md'', noMetadata)],
     linkViewOpen := True,
     parseAllReference := (\<lambda>q. if q = ''A.md'' then [''B.md'']
                                else if q = ''B.md'' then [''A.md''] else []) \<rparr>"

definition pluginCycle :: Plugin where
  "pluginCycle = plugin0\<lparr>fileCaches := [mkCache ''A'' 1 [] [], mkCache ''B'' 1 [] []]\<rparr>"

definition sweepStart :: SweepState where
  "sweepStart = \<lparr> processDiffs = [], newCaches = fileCaches pluginCycle, anyUpdated = False,
     diff = Some (mkFile ''A'' 1) \<rparr>"

text \<open>
  A vault with the files \<^verbatim>\<open>A.md\<close>, \<^verbatim>\<open>B.md\<close> and \<^verbatim>\<open>C.md\<close>. The cache entry of
  \<^verbatim>\<open>A.md\<close> holds the links to \<^verbatim>\<open>C.md\<close> and to \<^verbatim>\<open>D.md\<close>, a file that has been
  deleted; now \<^verbatim>\<open>A.md\<close> refers to \<^verbatim>\<open>C.md\<close>, to \<^verbatim>\<open>B.md\<close> and to \<^verbatim>\<open>ghost.md\<close>, a
  file that does not exist.
\<close>

definition hostGhost :: Host where
  "hostGhost = host0\<lparr> loadedFiles := [mkFile ''A'' 1, mkFile ''B'' 1, mkFile ''C'' 1],
     metadataCache := [(''A.md'', noMetadata), (''B.md'', noMetadata), (''C.md'', noMetadata)],
     linkViewOpen := True,
     parseAllReference := (\<lambda>q. if q = ''A.md'' then [''C.md'', ''B.md'', ''ghost.md''] else []) \<rparr>"

definition sweepGhost :: SweepState where
  "sweepGhost = \<lparr> processDiffs = [],
     newCaches = [mkCache ''A'' 1 [''C.md'', ''D.md''] [], mkCache ''B'' 1 [] [],
                  mkCache ''C'' 1 [] []],
     anyUpdated = False, diff = Some (mkFile ''A'' 1) \<rparr>"

text \<open>
  A host with a file of modification time 0 and a file of modification time 7, and a
  plugin that holds caches of both.
\<close>

definition taggedMetadata :: "string list \<Rightarrow> CachedMetadata" where
  "taggedMetadata ts = \<lparr> mdAllTags = Some ts, mdFrontmatter = None, mdHeadings = None,
     mdTitle = None \<rparr>"

definition hostTimes :: Host where
  "hostTimes = host0\<lparr> loadedFiles := [mkFile ''a'' 0, mkFile ''b'' 7],
     metadataCache := [(''a.md'', taggedMetadata [''#x'']), (''b.md'', taggedMetadata [''#y''])] \<rparr>"

definition pluginTimes :: Plugin where
  "pluginTimes = plugin0\<lparr>fileCaches := [mkCache ''a'' 0 [] [''#x''], mkCache ''b'' 7 [] [''#y'']]\<rparr>"

text \<open>Two files for the traces of the scheduler.\<close>

definition fileP :: TFile where
  "fileP = mkFile ''p'' 1"

definition fileQ :: TFile where
  "fileQ = mkFile ''q'' 2"

chapter \<open>Properties\<close>

section \<open>The item comparator\<close>

lemma contains_DESC_FOO: "contains ''FOO_DESC'' ''_DESC''"
  unfolding contains_def by code_simp

text \<open>
  Claim C3, as stated, fails: for the sort type \<^verbatim>\<open>FOO_DESC\<close>, which the \<^verbatim>\<open>switch\<close> does
  not name, the comparator returned for the items named \<^verbatim>\<open>a\<close> and \<^verbatim>\<open>b\<close> gives \<open>1\<close>,
  while \<^verbatim>\<open>compare('a', 'b')\<close> is \<open>-1\<close>: the fallback is inverted like every other branch.
\<close>

theorem C3_fallback_not_ascending:
  "\<not> recognizedSortType ''FOO_DESC'' \<and>
   getCompareMethodItems compare (settings0\<lparr>sortType := ''FOO_DESC''\<rparr>) (mkItem ''a'' 0) (mkItem ''b'' 0) = 1 \<and>
   compare (displayName (mkItem ''a'' 0)) (displayName (mkItem ''b'' 0)) = - 1"
  using contains_DESC_FOO
  by (simp add: recognizedSortType_def getCompareMethodItems_def invert_def settings0_def mkItem_def)

text \<open>
  Claim C3, amended: for every sort type that the \<^verbatim>\<open>switch\<close> does not name, the returned
  comparator is the display-name comparison multiplied by \<^verbatim>\<open>invert\<close>: ascending when the
  sort type does not contain \<^verbatim>\<open>_DESC\<close>, descending when it does. The function has no
  failing branch: it is total for every string comparison and every cfg value.
\<close>

theorem C3_fallback_displayName:
  assumes "\<not> recognizedSortType (sortType cfg)"
  shows "getCompareMethodItems cmp cfg a b =
           (if contains (sortType cfg) ''_DESC''
            then cmp (displayName a) (displayName b) * (- 1)
            else cmp (displayName a) (displayName b))"
  using assms
  by (simp add: recognizedSortType_def getCompareMethodItems_def invert_def Let_def)

theorem C3_fallback_displayName_witness:
  "\<not> recognizedSortType (sortType (settings0\<lparr>sortType := ''corrupted''\<rparr>)) \<and>
   getCompareMethodItems compare (settings0\<lparr>sortType := ''corrupted''\<rparr>) (mkItem ''a'' 0) (mkItem ''b'' 0)
     = - 1"
proof -
  have h: "\<not> recognizedSortType (sortType (settings0\<lparr>sortType := ''corrupted''\<rparr>))"
    by (simp add: recognizedSortType_def)
  have n: "\<not> contains (sortType (settings0\<lparr>sortType := ''corrupted''\<rparr>)) ''_DESC''"
    unfolding contains_def by code_simp
  show ?thesis
    using h n C3_fallback_displayName [OF h, of compare "mkItem ''a'' 0" "mkItem ''b'' 0"]
    by (simp add: mkItem_def)
qed


section \<open>The item list\<close>

text \<open>The loop returns the items of all file caches, unless one of them raises an error.\<close>

lemma getItemsLoop_eq:
  "getItemsLoop mode host p cs acc =
     (if list_all (\<lambda>c. \<not> isl (fileItems mode host p c)) cs
      then Inr (acc @ concat (map (\<lambda>c. projr (fileItems mode host p c)) cs))
      else Inl TypeError)"
proof (induction cs arbitrary: acc)
  case Nil
  show ?case by simp
next
  case (Cons c cs)
  show ?case
  proof (cases "fileItems mode host p c")
    case (Inl err)
    then show ?thesis by (cases err) simp
  next
    case (Inr pushed)
    then show ?thesis by (simp add: Cons)
  qed
qed

lemma getItemsList_eq:
  "getItemsList mode host p =
     (if list_all (\<lambda>c. \<not> isl (fileItems mode host p c)) (fileCaches p)
      then Inr (concat (map (\<lambda>c. projr (fileItems mode host p c)) (fileCaches p)))
      else Inl TypeError)"
  by (simp add: getItemsList_def getItemsLoop_eq)

lemma fileItems_skipped:
  "\<not> isl (fileItems mode host p fc) \<Longrightarrow>
     projr (fileItems mode host p fc) =
       (if fileSkipped mode host p fc then []
        else expandItems mode host p fc (projr (effectiveTags mode host p fc)))"
  by (auto simp: fileItems_def fileSkipped_def effectiveTags_def split: sum.splits if_splits)

lemma expandItems_path:
  "i \<in> set (expandItems mode host p fc ts) \<Longrightarrow> itemPath i = path (fcFile fc)"
  by (auto simp: expandItems_def viewItem_def Let_def split: if_splits)

lemma fileItems_path:
  "\<not> isl (fileItems mode host p fc) \<Longrightarrow> i \<in> set (projr (fileItems mode host p fc)) \<Longrightarrow>
     itemPath i = path (fcFile fc)"
  by (auto simp: fileItems_skipped dest: expandItems_path split: if_splits)

lemma parseFolderList_nonempty: "e \<in> set (parseFolderList s) \<Longrightarrow> e \<noteq> []"
  by (simp add: parseFolderList_def)

lemma insideIgnoreFolders_iff:
  "insideIgnoreFolders (parseFolderList s) fc \<longleftrightarrow>
     (\<exists>e \<in> set (parseFolderList s). startsWith (toLowerCase (path (fcFile fc))) e)"
  by (auto simp: insideIgnoreFolders_def list_ex_iff dest: parseFolderList_nonempty)

lemma outsideTargetFolders_iff:
  "outsideTargetFolders (parseFolderList s) fc \<longleftrightarrow>
     (parseFolderList s \<noteq> [] \<and>
      \<not> (\<exists>e \<in> set (parseFolderList s). startsWith (toLowerCase (path (fcFile fc))) e))"
  by (auto simp: outsideTargetFolders_def list_ex_iff dest: parseFolderList_nonempty)

lemma returnedItems_mem:
  "i \<in> set (returnedItems (getItemsList mode host p)) \<Longrightarrow>
     \<exists>fc \<in> set (fileCaches p). \<not> isl (fileItems mode host p fc) \<and>
        i \<in> set (projr (fileItems mode host p fc))"
  by (auto simp: getItemsList_eq returnedItems_def list_all_iff split: if_splits)

text \<open>The items of one path are the items of the file caches of that path.\<close>

lemma filter_path_fileItems:
  assumes "\<not> isl (fileItems mode host p fc)"
  shows "filter (\<lambda>i. itemPath i = q) (projr (fileItems mode host p fc)) =
     (if path (fcFile fc) = q then projr (fileItems mode host p fc) else [])"
proof (cases "path (fcFile fc) = q")
  case True
  then have "\<forall>i \<in> set (projr (fileItems mode host p fc)). itemPath i = q"
    using assms by (auto dest: fileItems_path)
  with True show ?thesis by (simp add: filter_id_conv)
next
  case False
  then have "\<forall>i \<in> set (projr (fileItems mode host p fc)). itemPath i \<noteq> q"
    using assms by (auto dest: fileItems_path)
  with False show ?thesis by (simp add: filter_empty_conv)
qed

lemma filter_path_concat:
  "list_all (\<lambda>c. \<not> isl (fileItems mode host p c)) cs \<Longrightarrow>
   filter (\<lambda>i. itemPath i = q) (concat (map (\<lambda>c. projr (fileItems mode host p c)) cs)) =
     concat (map (\<lambda>c. projr (fileItems mode host p c)) (filter (\<lambda>c. path (fcFile c) = q) cs))"
  by (induction cs) (simp_all add: filter_path_fileItems)

lemma itemsOfPath_single:
  assumes "list_all (\<lambda>c. \<not> isl (fileItems mode host p c)) (fileCaches p)"
    and "filter (\<lambda>c. path (fcFile c) = path (fcFile fc)) (fileCaches p) = [fc]"
  shows "\<exists>items. getItemsList mode host p = Inr items \<and>
           filter (\<lambda>i. itemPath i = path (fcFile fc)) items = projr (fileItems mode host p fc)"
  using assms by (simp add: getItemsList_eq filter_path_concat)

lemma distinct_uniqueCaseIntensive: "distinct (map toLowerCase (uniqueCaseIntensive xs))"
proof (induction xs)
  case Nil
  show ?case by simp
next
  case (Cons x xs)
  have "distinct (map toLowerCase
          (filter (\<lambda>y. toLowerCase y \<noteq> toLowerCase x) (uniqueCaseIntensive xs)))"
    using Cons by (simp add: distinct_map_filter)
  then show ?case by auto
qed

lemma distinct_effectiveTags:
  "effectiveTags mode host p fc = Inr ts \<Longrightarrow> distinct ts"
proof -
  assume a: "effectiveTags mode host p fc = Inr ts"
  then obtain rs where r: "resolvedTags mode host p fc = Inr rs"
    and ts: "ts = filter (\<lambda>tag. \<not> List.member (parseTagList (ignoreTags (settings p)))
                                    (toLowerCase tag)) rs"
    by (auto simp: effectiveTags_def split: sum.splits)
  from r obtain ss where "rs = uniqueCaseIntensive ss"
    by (auto simp: resolvedTags_def split: sum.splits)
  then have "distinct rs"
    using distinct_uniqueCaseIntensive [of ss] by (simp add: distinct_map)
  with ts show "distinct ts" by simp
qed

lemma effectiveTags_not_raised:
  "effectiveTags mode host p fc = Inr ts \<Longrightarrow> \<not> isl (fileItems mode host p fc)"
  by (auto simp: effectiveTags_def fileItems_def split: sum.splits)

lemma expandItems_three:
  assumes "distinct [a, b, c]"
    and "\<not> list_ex (\<lambda>e. List.member (parseTagList (archiveTags (settings p))) (toLowerCase e)) [a, b, c]"
    and "disableNarrowingDown (settings p)"
  shows "expandItems TagMode host p fc [a, b, c] =
           [viewItem host p fc [a] [b, c], viewItem host p fc [b] [a, c],
            viewItem host p fc [c] [a, b]]"
  using assms by (auto simp: expandItems_def Let_def)

lemma expandItems_whole:
  "\<not> disableNarrowingDown (settings p) \<Longrightarrow>
     expandItems mode host p fc ts = [viewItem host p fc ts []]"
  by (simp add: expandItems_def)

text \<open>
  Claim C1, as stated, fails. The document \<^verbatim>\<open>a.md\<close> has the effective tags \<^verbatim>\<open>p\<close>,
  \<^verbatim>\<open>q\<close>, \<^verbatim>\<open>r\<close>. With \<^verbatim>\<open>disableNarrowingDown = false\<close> (narrowing-down enabled) the
  item list holds one item with all three tags and no extra tags, not three items; with
  \<^verbatim>\<open>disableNarrowingDown = true\<close> it holds three items of one tag each, not one item;
  and with \<^verbatim>\<open>disableNarrowingDown = true\<close> and the archive tag \<^verbatim>\<open>q\<close> it holds the single
  item of \<^verbatim>\<open>q\<close>. And when another file of the vault carries the tag \<^verbatim>\<open>#constructor\<close>,
  the lookup \<^verbatim>\<open>e in tagRedirectList\<close> finds the inherited member, the tag is no string
  any more, and \<^verbatim>\<open>getItemsList\<close> raises \<^verbatim>\<open>TypeError\<close>: no item is produced for any
  document, under either value of the setting.
\<close>

theorem C1_polarity_counterexample:
  "effectiveTags TagMode host0 pluginPQR (mkCache ''a'' 5 [] [''#p'', ''#q'', ''#r'']) =
     Inr [''p'', ''q'', ''r''] \<and>
   map_sum id (map (\<lambda>i. (itemTags i, extraTags i))) (getItemsList TagMode host0 pluginPQR) =
     Inr [([''p'', ''q'', ''r''], [])] \<and>
   map_sum id (map (\<lambda>i. (itemTags i, extraTags i)))
     (getItemsList TagMode host0
        (pluginPQR\<lparr>settings := settings0\<lparr>disableNarrowingDown := True\<rparr>\<rparr>)) =
     Inr [([''p''], [''q'', ''r'']), ([''q''], [''p'', ''r'']), ([''r''], [''p'', ''q''])] \<and>
   map_sum id (map (\<lambda>i. (itemTags i, extraTags i)))
     (getItemsList TagMode host0
        (pluginPQR\<lparr>settings := settings0\<lparr>disableNarrowingDown := True, archiveTags := ''Q''\<rparr>\<rparr>)) =
     Inr [([''q''], [''p'', ''r''])] \<and>
   getItemsList TagMode host0 pluginInherited = Inl TypeError \<and>
   getItemsList TagMode host0
     (pluginInherited\<lparr>settings := settings0\<lparr>disableNarrowingDown := True\<rparr>\<rparr>) = Inl TypeError"
  by code_simp

text \<open>
  Claim C1, amended: when no file cache makes the loop of \<^verbatim>\<open>getItemsList\<close> raise an
  error, the call returns, and for every document that has one file cache, that the loop
  does not skip and whose effective tags are the three tags \<open>a\<close>, \<open>b\<close>, \<open>c\<close>:
  when \<^verbatim>\<open>disableNarrowingDown\<close> is set and none of the three tags is an archive tag,
  \<^verbatim>\<open>getItemsList\<close> in tag mode produces exactly three items for that document, each with
  one tag and with the other two tags as \<^verbatim>\<open>extraTags\<close>; when \<^verbatim>\<open>disableNarrowingDown\<close>
  is not set, it produces one item with all three tags and empty \<^verbatim>\<open>extraTags\<close>.
\<close>

theorem C1_expansion_by_setting:
  assumes "list_all (\<lambda>c. \<not> isl (fileItems TagMode host p c)) (fileCaches p)"
    and "filter (\<lambda>c. path (fcFile c) = path (fcFile fc)) (fileCaches p) = [fc]"
    and "\<not> fileSkipped TagMode host p fc"
    and "effectiveTags TagMode host p fc = Inr [a, b, c]"
  shows "\<exists>items. getItemsList TagMode host p = Inr items \<and>
         (disableNarrowingDown (settings p) \<and>
          \<not> list_ex (\<lambda>e. List.member (parseTagList (archiveTags (settings p))) (toLowerCase e))
               [a, b, c] \<longrightarrow>
            filter (\<lambda>i. itemPath i = path (fcFile fc)) items =
              [viewItem host p fc [a] [b, c], viewItem host p fc [b] [a, c],
               viewItem host p fc [c] [a, b]]) \<and>
         (\<not> disableNarrowingDown (settings p) \<longrightarrow>
            filter (\<lambda>i. itemPath i = path (fcFile fc)) items =
              [viewItem host p fc [a, b, c] []])"
proof -
  have d: "distinct [a, b, c]"
    using distinct_effectiveTags [OF assms(4)] .
  have ok: "\<not> isl (fileItems TagMode host p fc)"
    using assms(4) by (rule effectiveTags_not_raised)
  obtain items where g: "getItemsList TagMode host p = Inr items"
    and f: "filter (\<lambda>i. itemPath i = path (fcFile fc)) items = projr (fileItems TagMode host p fc)"
    using itemsOfPath_single [OF assms(1,2)] by blast
  have e: "filter (\<lambda>i. itemPath i = path (fcFile fc)) items =
          expandItems TagMode host p fc [a, b, c]"
    unfolding f using assms(3,4) ok by (simp add: fileItems_skipped)
  show ?thesis
    using g e expandItems_three [OF d, of p host fc]
      expandItems_whole [of p TagMode host fc "[a, b, c]"]
    by auto
qed

theorem C1_expansion_by_setting_witness:
  "map_sum id (map (\<lambda>i. (itemTags i, extraTags i)) \<circ> filter (\<lambda>i. itemPath i = ''a.md''))
     (getItemsList TagMode host0 pluginPQR) =
     Inr [([''p'', ''q'', ''r''], [])] \<and>
   map_sum id (map (\<lambda>i. (itemTags i, extraTags i)) \<circ> filter (\<lambda>i. itemPath i = ''a.md''))
     (getItemsList TagMode host0
        (pluginPQR\<lparr>settings := settings0\<lparr>disableNarrowingDown := True\<rparr>\<rparr>)) =
     Inr [([''p''], [''q'', ''r'']), ([''q''], [''p'', ''r'']), ([''r''], [''p'', ''q''])]"
proof -
  let ?fc = "mkCache ''a'' 5 [] [''#p'', ''#q'', ''#r'']"
  let ?p2 = "pluginPQR\<lparr>settings := settings0\<lparr>disableNarrowingDown := True\<rparr>\<rparr>"
  have pth: "path (fcFile ?fc) = ''a.md''" by (simp add: mkCache_def mkFile_def)
  have ok1: "list_all (\<lambda>c. \<not> isl (fileItems TagMode host0 pluginPQR c)) (fileCaches pluginPQR)"
    by code_simp
  have ok2: "list_all (\<lambda>c. \<not> isl (fileItems TagMode host0 ?p2 c)) (fileCaches ?p2)"
    by code_simp
  have one1: "filter (\<lambda>c. path (fcFile c) = path (fcFile ?fc)) (fileCaches pluginPQR) = [?fc]"
    by code_simp
  have one2: "filter (\<lambda>c. path (fcFile c) = path (fcFile ?fc)) (fileCaches ?p2) = [?fc]"
    by code_simp
  have ns1: "\<not> fileSkipped TagMode host0 pluginPQR ?fc" by code_simp
  have ns2: "\<not> fileSkipped TagMode host0 ?p2 ?fc" by code_simp
  have t1: "effectiveTags TagMode host0 pluginPQR ?fc = Inr [''p'', ''q'', ''r'']" by code_simp
  have t2: "effectiveTags TagMode host0 ?p2 ?fc = Inr [''p'', ''q'', ''r'']" by code_simp
  have na: "\<not> list_ex (\<lambda>e. List.member (parseTagList (archiveTags (settings ?p2))) (toLowerCase e))
                [''p'', ''q'', ''r'']" by code_simp
  have d1: "\<not> disableNarrowingDown (settings pluginPQR)" by code_simp
  have d2: "disableNarrowingDown (settings ?p2)" by code_simp
  show ?thesis
    using C1_expansion_by_setting [OF ok1 one1 ns1 t1] C1_expansion_by_setting [OF ok2 one2 ns2 t2]
    unfolding pth using na d1 d2
    by (auto simp: viewItem_def simp del: list_ex_Cons_iff)
qed

text \<open>
  Tags that are strings stay strings: a name that no object inherits is replaced by its
  redirection, or kept.
\<close>

lemma stringTags_strings: "stringTags (map TagString xs) = Inr xs"
  by (induction xs) simp_all

lemma redirectTag_string:
  "\<not> List.member inheritedNames s \<Longrightarrow>
     redirectTag host m (TagString s) = TagString (case m s of Some r \<Rightarrow> r | None \<Rightarrow> s)"
  by (simp add: redirectTag_def propertyKey_def split: option.splits)

lemma redirectTag_redirected:
  "m s = Some r \<Longrightarrow> redirectTag host m (TagString s) = TagString r"
  by (simp add: redirectTag_def propertyKey_def)

lemma join_folder: "take 2 (join c (''_VIRTUAL_TAG_FOLDER'' # ys)) = ''_V''"
  by (cases ys) simp_all

lemma virtualTags_prefix: "t \<in> set (virtualTags host p fc) \<Longrightarrow> take 2 t = ''_V''"
  by (auto simp: virtualTags_def Let_def join_folder split: if_splits)

lemma prefix_not_inherited: "take 2 t = ''_V'' \<Longrightarrow> \<not> List.member inheritedNames t"
  by (auto simp: inheritedNames_def)

lemma redirect_virtualTags:
  "map (redirectTag host m) (map TagString (virtualTags host p fc)) =
     map TagString (map (\<lambda>e. case m e of Some r \<Rightarrow> r | None \<Rightarrow> e) (virtualTags host p fc))"
proof -
  have "redirectTag host m (TagString t) = TagString (case m t of Some r \<Rightarrow> r | None \<Rightarrow> t)"
    if "t \<in> set (virtualTags host p fc)" for t
    using that by (intro redirectTag_string prefix_not_inherited virtualTags_prefix)
  then show ?thesis by simp
qed

lemma resolvedTags_single:
  assumes "documentTags TagMode host p fc = Inr [TagString s]"
    and "redirectTag host (tagRedirectList p) (TagString s) = TagString r"
  shows "resolvedTags TagMode host p fc =
           Inr (uniqueCaseIntensive
                  (r # map (\<lambda>e. case tagRedirectList p e of Some r \<Rightarrow> r | None \<Rightarrow> e)
                         (virtualTags host p fc)))"
proof -
  have "stringTags (map (redirectTag host (tagRedirectList p))
                      ([TagString s] @ map TagString (virtualTags host p fc))) =
        stringTags (map TagString
                      (r # map (\<lambda>e. case tagRedirectList p e of Some r \<Rightarrow> r | None \<Rightarrow> e)
                             (virtualTags host p fc)))"
    using assms(2) by (simp add: redirect_virtualTags del: map_map)
  then show ?thesis
    using assms(1) unfolding resolvedTags_def stringTags_strings by simp
qed










text \<open>
  Claim C10: a path that starts (lower-cased) with an entry of the parsed
  \<^verbatim>\<open>ignoreFolders\<close> has no item in the list, whatever \<^verbatim>\<open>targetFolders\<close> holds; and when
  the parsed \<^verbatim>\<open>targetFolders\<close> is not empty, a path that starts with none of its entries
  has no item in the list, whatever \<^verbatim>\<open>ignoreFolders\<close> holds. (When \<^verbatim>\<open>getItemsList\<close>
  raises an error it returns no item at all.)
\<close>

theorem C10_folder_precedence:
  assumes "(\<exists>e \<in> set (parseFolderList (ignoreFolders (settings p))).
               startsWith (toLowerCase q) e) \<or>
           (parseFolderList (targetFolders (settings p)) \<noteq> [] \<and>
            \<not> (\<exists>e \<in> set (parseFolderList (targetFolders (settings p))).
                  startsWith (toLowerCase q) e))"
  shows "\<not> List.member (map itemPath (returnedItems (getItemsList mode host p))) q"
proof
  assume "List.member (map itemPath (returnedItems (getItemsList mode host p))) q"
  then obtain i where i: "i \<in> set (returnedItems (getItemsList mode host p))" "itemPath i = q"
    by auto
  then obtain fc where fc: "fc \<in> set (fileCaches p)" "\<not> isl (fileItems mode host p fc)"
      "i \<in> set (projr (fileItems mode host p fc))"
    using returnedItems_mem by blast
  from fc(2,3) i(2) have pth: "path (fcFile fc) = q" by (auto dest: fileItems_path)
  from fc(2,3) have "\<not> fileSkipped mode host p fc"
    by (auto simp: fileItems_skipped split: if_splits)
  then have "\<not> outsideTargetFolders (parseFolderList (targetFolders (settings p))) fc"
    and "\<not> insideIgnoreFolders (parseFolderList (ignoreFolders (settings p))) fc"
    by (simp_all add: fileSkipped_def)
  with assms show False
    unfolding insideIgnoreFolders_iff outsideTargetFolders_iff pth by blast
qed

theorem C10_folder_precedence_witness:
  "\<not> List.member (map itemPath (returnedItems (getItemsList TagMode host0 pluginFolders)))
       ''Archive/old/x.md'' \<and>
   \<not> List.member (map itemPath (returnedItems (getItemsList TagMode host0 pluginFolders)))
       ''misc/z.md'' \<and>
   map_sum id (map itemPath) (getItemsList TagMode host0 pluginFolders) = Inr [''Notes/y.md'']"
proof -
  have h1: "(\<exists>e \<in> set (parseFolderList (ignoreFolders (settings pluginFolders))).
               startsWith (toLowerCase ''Archive/old/x.md'') e) \<or>
           (parseFolderList (targetFolders (settings pluginFolders)) \<noteq> [] \<and>
            \<not> (\<exists>e \<in> set (parseFolderList (targetFolders (settings pluginFolders))).
                  startsWith (toLowerCase ''Archive/old/x.md'') e))"
    by code_simp
  have h2: "(\<exists>e \<in> set (parseFolderList (ignoreFolders (settings pluginFolders))).
               startsWith (toLowerCase ''misc/z.md'') e) \<or>
           (parseFolderList (targetFolders (settings pluginFolders)) \<noteq> [] \<and>
            \<not> (\<exists>e \<in> set (parseFolderList (targetFolders (settings pluginFolders))).
                  startsWith (toLowerCase ''misc/z.md'') e))"
    by code_simp
  have v: "map_sum id (map itemPath) (getItemsList TagMode host0 pluginFolders) = Inr [''Notes/y.md'']"
    by code_simp
  show ?thesis
    using C10_folder_precedence [OF h1, of TagMode host0]
      C10_folder_precedence [OF h2, of TagMode host0] v
    by blast
qed

section \<open>Redirection\<close>

text \<open>
  Claim C5, as stated, fails. With the redirections \<^verbatim>\<open>a\<close> to \<^verbatim>\<open>b\<close>, \<^verbatim>\<open>b\<close> to \<^verbatim>\<open>c\<close> and
  \<^verbatim>\<open>c\<close> to \<^verbatim>\<open>d\<close>, the document with the raw tag \<^verbatim>\<open>#a\<close> is listed under \<^verbatim>\<open>c\<close>, not under
  \<^verbatim>\<open>b\<close>: line 605 takes \<^verbatim>\<open>a\<close> to \<^verbatim>\<open>b\<close> and line 639 takes \<^verbatim>\<open>b\<close> to \<^verbatim>\<open>c\<close>.
\<close>

theorem C5_chain_followed_twice:
  "tagRedirectList pluginChain ''a'' = Some ''b'' \<and>
   tagRedirectList pluginChain ''b'' = Some ''c'' \<and>
   map_sum id (map itemTags) (getItemsList TagMode host0 pluginChain) = Inr [[''c'']]"
  by code_simp

text \<open>
  Claim C5, amended: one application of the redirection table is a single-level
  substitution, and \<^verbatim>\<open>getItemsList\<close> applies it twice in tag mode, to the raw tags and
  once more over the combined list. For every configuration in which \<open>a\<close> redirects to
  \<open>b\<close> and \<open>b\<close> redirects to \<open>c\<close> (nested tags not disabled), a document whose only
  raw tag is \<open>a\<close> has \<open>c\<close> as the first of its resolved tags, followed by the redirected
  virtual tags, whatever \<open>c\<close> redirects to: the chain is followed for two hops and not
  further.
\<close>

theorem C5_redirect_two_hops:
  assumes "tagRedirectList p a = Some b"
    and "tagRedirectList p b = Some c"
    and "tags fc = [CHR ''#'' # a]"
    and "\<not> disableNestedTags (settings p)"
  shows "resolvedTags TagMode host p fc =
           Inr (uniqueCaseIntensive
                  (c # map (\<lambda>e. case tagRedirectList p e of Some r \<Rightarrow> r | None \<Rightarrow> e)
                         (virtualTags host p fc)))"
proof -
  have "documentTags TagMode host p fc = Inr [TagString b]"
    using assms(1,3,4) by (simp add: documentTags_def substring1_def redirectTag_redirected)
  then show ?thesis
    using assms(2) by (rule resolvedTags_single [OF _ redirectTag_redirected])
qed

theorem C5_redirect_two_hops_witness:
  "tagRedirectList pluginChain ''c'' = Some ''d'' \<and>
   resolvedTags TagMode host0 pluginChain (mkCache ''n'' 5 [] [''#a'']) = Inr [''c'']"
proof -
  have h1: "tagRedirectList pluginChain ''a'' = Some ''b''" by code_simp
  have h2: "tagRedirectList pluginChain ''b'' = Some ''c''" by code_simp
  have h3: "tags (mkCache ''n'' 5 [] [''#a'']) = [CHR ''#'' # ''a'']" by code_simp
  have h4: "\<not> disableNestedTags (settings pluginChain)" by code_simp
  have v: "virtualTags host0 pluginChain (mkCache ''n'' 5 [] [''#a'']) = []" by code_simp
  have d: "tagRedirectList pluginChain ''c'' = Some ''d''" by code_simp
  show ?thesis
    using C5_redirect_two_hops [OF h1 h2 h3 h4, of host0] v d by simp
qed

section \<open>The order of the published list\<close>

lemma set_insertItem: "set (insertItem cmp x ys) = insert x (set ys)"
  by (induction ys) auto

lemma mset_insertItem: "mset (insertItem cmp x ys) = add_mset x (mset ys)"
  by (induction ys) auto

lemma mset_sortItems: "mset (sortItems cmp xs) = mset xs"
  unfolding sortItems_def by (induction xs) (simp_all add: mset_insertItem)

text \<open>The comparator of \<^verbatim>\<open>MTIME_DESC\<close> puts \<open>a\<close> not after \<open>b\<close> exactly when \<open>a\<close> is not older.\<close>

lemma contains_MTIME_DESC: "contains ''MTIME_DESC'' ''_DESC''"
  unfolding contains_def by code_simp

lemma mtime_desc_compare:
  "sortType cfg = ''MTIME_DESC'' \<Longrightarrow>
     getCompareMethodItems cmp cfg a b = mtime b - mtime a"
  using contains_MTIME_DESC by (simp add: getCompareMethodItems_def invert_def)

lemma sorted_insertItem_desc:
  assumes "\<And>a b. cmp a b = mtime b - mtime a"
    and "sorted_wrt (\<lambda>a b. mtime b \<le> mtime a) ys"
  shows "sorted_wrt (\<lambda>a b. mtime b \<le> mtime a) (insertItem cmp x ys)"
  using assms(2)
proof (induction ys)
  case Nil
  show ?case by simp
next
  case (Cons y ys)
  show ?case
  proof (cases "cmp x y \<le> 0")
    case True
    then have "mtime y \<le> mtime x" using assms(1) [of x y] by simp
    with Cons.prems True show ?thesis by auto
  next
    case False
    then have "mtime x \<le> mtime y" using assms(1) [of x y] by simp
    with Cons False show ?thesis by (auto simp: set_insertItem)
  qed
qed

lemma filter_insertItem_desc:
  assumes "\<And>a b. cmp a b = mtime b - mtime a"
    and "sorted_wrt (\<lambda>a b. mtime b \<le> mtime a) ys"
  shows "filter (\<lambda>i. mtime i = t) (insertItem cmp x ys) =
           (if mtime x = t then x # filter (\<lambda>i. mtime i = t) ys
            else filter (\<lambda>i. mtime i = t) ys)"
  using assms(2)
proof (induction ys)
  case Nil
  show ?case by simp
next
  case (Cons y ys)
  show ?case
  proof (cases "cmp x y \<le> 0")
    case True
    then show ?thesis by simp
  next
    case False
    then have "mtime x < mtime y" using assms(1) [of x y] by simp
    with Cons False show ?thesis by auto
  qed
qed

lemma sortItems_desc:
  assumes "\<And>a b. cmp a b = mtime b - mtime a"
  shows "sorted_wrt (\<lambda>a b. mtime b \<le> mtime a) (sortItems cmp xs) \<and>
         filter (\<lambda>i. mtime i = t) (sortItems cmp xs) = filter (\<lambda>i. mtime i = t) xs"
  unfolding sortItems_def
proof (induction xs)
  case Nil
  show ?case by simp
next
  case (Cons x xs)
  then show ?case
    using sorted_insertItem_desc [OF assms, of "foldr (insertItem cmp) xs []" x]
      filter_insertItem_desc [OF assms, of "foldr (insertItem cmp) xs []" t x]
    by simp
qed

lemma allViewItems_applied:
  "getItemsList TagMode host p = Inr items \<Longrightarrow>
     allViewItems (fst (applyFileInfoToView host p)) = sortItems (compareItems p) items"
  by (simp add: applyFileInfoToView_def Let_def split: sum.splits)

lemma applyFileInfoToView_raised:
  "getItemsList TagMode host p = Inl err \<Longrightarrow> applyFileInfoToView host p = (p, Some err)"
  by (simp add: applyFileInfoToView_def)

text \<open>
  Claim C4, as stated, fails. The files \<^verbatim>\<open>x.md\<close> and \<^verbatim>\<open>y.md\<close> have the modification
  time 5. With the sort type \<^verbatim>\<open>MTIME_DESC\<close> the published list holds them in the order in
  which the file caches were scanned: \<^verbatim>\<open>x\<close> before \<^verbatim>\<open>y\<close> for one order of the caches,
  \<^verbatim>\<open>y\<close> before \<^verbatim>\<open>x\<close> for the other. The comparator gives 0 for the pair, so the times
  are not strictly descending and nothing of the items decides their order.
\<close>

theorem C4_ties_follow_scan_order:
  "map (\<lambda>i. (itemPath i, mtime i))
     (allViewItems (fst (applyFileInfoToView host0
        (pluginTies [mkCache ''x'' 5 [] [], mkCache ''y'' 5 [] []])))) =
     [(''x.md'', 5), (''y.md'', 5)] \<and>
   map (\<lambda>i. (itemPath i, mtime i))
     (allViewItems (fst (applyFileInfoToView host0
        (pluginTies [mkCache ''y'' 5 [] [], mkCache ''x'' 5 [] []])))) =
     [(''y.md'', 5), (''x.md'', 5)]"
  by code_simp

text \<open>
  Claim C4, amended: when \<^verbatim>\<open>sortType\<close> is \<^verbatim>\<open>MTIME_DESC\<close> and \<^verbatim>\<open>compareItems\<close> is the
  comparator of the settings, and \<^verbatim>\<open>getItemsList\<close> returns, the published item list is a
  rearrangement of the result of \<^verbatim>\<open>getItemsList\<close>, ordered by descending modification
  time (not strictly: equal times may follow each other), and the items of one
  modification time keep the order they have in the result of \<^verbatim>\<open>getItemsList\<close>, which is
  the order of the file caches. When \<^verbatim>\<open>getItemsList\<close> raises an error, nothing is
  published and the error leaves \<^verbatim>\<open>applyFileInfoToView\<close>.
\<close>

theorem C4_mtime_desc_stable:
  assumes "sortType (settings p) = ''MTIME_DESC''"
    and "compareItems p = getCompareMethodItems cmp (settings p)"
  shows "case getItemsList TagMode host p of
           Inl err \<Rightarrow> applyFileInfoToView host p = (p, Some err)
         | Inr items \<Rightarrow>
             sorted_wrt (\<lambda>a b. mtime b \<le> mtime a)
               (allViewItems (fst (applyFileInfoToView host p))) \<and>
             mset (allViewItems (fst (applyFileInfoToView host p))) = mset items \<and>
             filter (\<lambda>i. mtime i = t) (allViewItems (fst (applyFileInfoToView host p))) =
               filter (\<lambda>i. mtime i = t) items"
proof (cases "getItemsList TagMode host p")
  case (Inl err)
  then show ?thesis by (simp add: applyFileInfoToView_raised)
next
  case (Inr items)
  have c: "\<And>a b. compareItems p a b = mtime b - mtime a"
    using assms by (simp add: mtime_desc_compare)
  show ?thesis
    unfolding Inr sum.case allViewItems_applied [OF Inr]
    using sortItems_desc [of "compareItems p", OF c] by (simp add: mset_sortItems)
qed

theorem C4_mtime_desc_stable_witness:
  "map (\<lambda>i. (itemPath i, mtime i))
     (allViewItems (fst (applyFileInfoToView host0
        (pluginTies [mkCache ''x'' 5 [] [], mkCache ''z'' 9 [] [], mkCache ''y'' 5 [] []])))) =
     [(''z.md'', 9), (''x.md'', 5), (''y.md'', 5)] \<and>
   map itemPath (filter (\<lambda>i. mtime i = 5)
     (allViewItems (fst (applyFileInfoToView host0
        (pluginTies [mkCache ''x'' 5 [] [], mkCache ''z'' 9 [] [], mkCache ''y'' 5 [] []]))))) =
     [''x.md'', ''y.md'']"
proof -
  let ?p = "pluginTies [mkCache ''x'' 5 [] [], mkCache ''z'' 9 [] [], mkCache ''y'' 5 [] []]"
  have h1: "sortType (settings ?p) = ''MTIME_DESC''" by code_simp
  have h2: "compareItems ?p = getCompareMethodItems compare (settings ?p)"
    by (simp add: pluginTies_def plugin0_def)
  obtain items where g: "getItemsList TagMode host0 ?p = Inr items"
    and f: "map itemPath (filter (\<lambda>i. mtime i = 5) items) = [''x.md'', ''y.md'']"
  proof -
    have "map_sum id (map itemPath \<circ> filter (\<lambda>i. mtime i = 5)) (getItemsList TagMode host0 ?p) =
            Inr [''x.md'', ''y.md'']" by code_simp
    then show ?thesis
      using that by (cases "getItemsList TagMode host0 ?p") auto
  qed
  have v: "map (\<lambda>i. (itemPath i, mtime i)) (allViewItems (fst (applyFileInfoToView host0 ?p))) =
     [(''z.md'', 9), (''x.md'', 5), (''y.md'', 5)]" by code_simp
  show ?thesis
    using C4_mtime_desc_stable [OF h1 h2, of host0 5] f v unfolding g by simp
qed


section \<open>The loop of updateFileCaches\<close>

lemma set_unique: "set (unique xs) = set xs"
  by (induction xs) auto

lemma distinct_unique: "distinct (unique xs)"
  by (induction xs) (auto simp: set_unique)

lemma set_changedLinks:
  "set (changedLinks old new) = (set old \<union> set new) - (set old \<inter> set new)"
  by (auto simp: changedLinks_def set_unique)

lemma changedLinks_same: "changedLinks xs xs = []"
  by (simp add: changedLinks_def filter_empty_conv set_unique)

lemma changedLinks_Nil: "changedLinks [] new \<noteq> [] \<Longrightarrow> new \<noteq> []"
  by (auto simp: changedLinks_def)

lemma getFileCacheData_links:
  "getFileCacheData cfg host f = Some n \<Longrightarrow>
     currentLinks host (path f) = Some (links n) \<and> path (fcFile n) = path f"
  by (auto simp: getFileCacheData_def getFileCache_def currentLinks_def getFileCacheLinks_def
      split: option.splits)

lemma getFileCacheData_None:
  "getFileCacheData cfg host f = None \<Longrightarrow> path f \<notin> fst ` set (metadataCache host)"
  by (auto simp: getFileCacheData_def getFileCache_def getCache_def map_of_eq_None_iff
      split: option.splits)

lemma getFileCacheData_Some_key:
  "getFileCacheData cfg host f = Some n \<Longrightarrow> path f \<in> fst ` set (metadataCache host)"
  by (auto simp: getFileCacheData_def getFileCache_def getCache_def
      split: option.splits dest: map_of_SomeD intro: rev_image_eqI)

lemma finite_missingPaths: "finite (missingPaths host caches)"
  by (simp add: missingPaths_def)

lemma shift_queue:
  "length (snd (shift q)) + (case fst (shift q) of None \<Rightarrow> 0 | Some _ \<Rightarrow> 1) \<le> length q"
  by (cases q) (auto simp: shift_def split: option.splits)

lemma length_filter_remove1:
  "length (filter S (remove1 c xs)) =
     (if c \<in> set xs \<and> S c then length (filter S xs) - 1 else length (filter S xs))"
  by (simp add: filter_remove1 length_remove1)


lemma not_stale_current:
  "currentLinks host (path (fcFile n)) = Some (links n) \<Longrightarrow> \<not> staleEntry host n"
  by (simp add: staleEntry_def changedLinks_same)

text \<open>A file without metadata: its entry is removed, and the cost does not grow.\<close>

lemma cost_without_metadata:
  assumes "q \<notin> fst ` set (metadataCache host)"
    and "caches1 = caches \<or> (\<exists>c. path (fcFile c) = q \<and> caches1 = remove1 c caches)"
  shows "sweepCost host caches1 \<le> sweepCost host caches"
proof -
  have a: "length (filter (staleEntry host) caches1) \<le> length (filter (staleEntry host) caches)"
    using assms(2) by (auto simp: length_filter_remove1)
  have "missingPaths host caches1 \<subseteq> missingPaths host caches"
  proof
    fix r assume r: "r \<in> missingPaths host caches1"
    then have rq: "r \<noteq> q" using assms(1) by (auto simp: missingPaths_def)
    have "r \<notin> (\<lambda>c. path (fcFile c)) ` set caches"
    proof
      assume "r \<in> (\<lambda>c. path (fcFile c)) ` set caches"
      then obtain e where e: "e \<in> set caches" "path (fcFile e) = r" by auto
      have "e \<in> set caches1"
      proof (cases "caches1 = caches")
        case True
        with e(1) show ?thesis by simp
      next
        case False
        with assms(2) obtain c where c: "path (fcFile c) = q" "caches1 = remove1 c caches"
          by auto
        with e(2) rq have "e \<noteq> c" by auto
        with e(1) c(2) show ?thesis by (simp add: in_set_remove1)
      qed
      with e(2) r show False by (auto simp: missingPaths_def)
    qed
    with r show "r \<in> missingPaths host caches" by (auto simp: missingPaths_def)
  qed
  then have "card (missingPaths host caches1) \<le> card (missingPaths host caches)"
    by (rule card_mono [OF finite_missingPaths])
  with a show ?thesis by (simp add: sweepCost_def)
qed

text \<open>A file with metadata and no entry: the new entry ends that the path is missing.\<close>

lemma cost_new_entry:
  assumes "q \<notin> (\<lambda>c. path (fcFile c)) ` set caches"
    and "q \<in> fst ` set (metadataCache host)"
    and "currentLinks host q = Some (links n)"
    and "path (fcFile n) = q"
  shows "sweepCost host (caches @ [n]) \<le> sweepCost host caches"
    and "links n \<noteq> [] \<Longrightarrow> sweepCost host (caches @ [n]) < sweepCost host caches"
proof -
  have ns: "\<not> staleEntry host n" using assms(3,4) by (simp add: not_stale_current)
  have m: "missingPaths host (caches @ [n]) = missingPaths host caches - {q}"
    using assms(4) by (auto simp: missingPaths_def)
  have "card (missingPaths host caches - {q}) \<le> card (missingPaths host caches)"
    by (rule card_mono [OF finite_missingPaths]) auto
  with ns m show "sweepCost host (caches @ [n]) \<le> sweepCost host caches"
    by (simp add: sweepCost_def)
  assume "links n \<noteq> []"
  with assms(1,2,3) have "q \<in> missingPaths host caches"
    by (simp add: missingPaths_def)
  then have "card (missingPaths host caches - {q}) < card (missingPaths host caches)"
    by (rule card_Diff1_less [OF finite_missingPaths])
  with ns m show "sweepCost host (caches @ [n]) < sweepCost host caches"
    by (simp add: sweepCost_def)
qed

text \<open>A file with metadata and an entry: the entry is replaced by one that is not stale.\<close>

lemma cost_replaced_entry:
  assumes "c \<in> set caches"
    and "path (fcFile c) = q"
    and "currentLinks host q = Some (links n)"
    and "path (fcFile n) = q"
  shows "sweepCost host (remove1 c caches @ [n]) \<le> sweepCost host caches"
    and "changedLinks (links c) (links n) \<noteq> [] \<Longrightarrow>
           sweepCost host (remove1 c caches @ [n]) < sweepCost host caches"
proof -
  have ns: "\<not> staleEntry host n" using assms(3,4) by (simp add: not_stale_current)
  have "(\<lambda>c. path (fcFile c)) ` set (remove1 c caches @ [n]) = (\<lambda>c. path (fcFile c)) ` set caches"
  proof
    show "(\<lambda>c. path (fcFile c)) ` set (remove1 c caches @ [n]) \<subseteq> (\<lambda>c. path (fcFile c)) ` set caches"
      using assms(1,2,4) set_remove1_subset [of c caches] by auto
    show "(\<lambda>c. path (fcFile c)) ` set caches \<subseteq> (\<lambda>c. path (fcFile c)) ` set (remove1 c caches @ [n])"
    proof
      fix r assume "r \<in> (\<lambda>c. path (fcFile c)) ` set caches"
      then obtain e where e: "e \<in> set caches" "path (fcFile e) = r" by auto
      show "r \<in> (\<lambda>c. path (fcFile c)) ` set (remove1 c caches @ [n])"
      proof (cases "e = c")
        case True
        with e(2) assms(2,4) show ?thesis by simp
      next
        case False
        with e have "e \<in> set (remove1 c caches)" by (simp add: in_set_remove1)
        with e(2) show ?thesis by auto
      qed
    qed
  qed
  then have m: "missingPaths host (remove1 c caches @ [n]) = missingPaths host caches"
    by (simp add: missingPaths_def)
  have l: "length (filter (staleEntry host) (remove1 c caches @ [n])) =
             (if staleEntry host c then length (filter (staleEntry host) caches) - 1
              else length (filter (staleEntry host) caches))"
    using ns assms(1) by (simp add: length_filter_remove1)
  from l m show "sweepCost host (remove1 c caches @ [n]) \<le> sweepCost host caches"
    by (simp add: sweepCost_def)
  assume "changedLinks (links c) (links n) \<noteq> []"
  then have st: "staleEntry host c" using assms(2,3) by (simp add: staleEntry_def)
  with assms(1) have "filter (staleEntry host) caches \<noteq> []"
    by (auto simp: filter_empty_conv)
  then have "0 < length (filter (staleEntry host) caches)" by simp
  with l m st show "sweepCost host (remove1 c caches @ [n]) < sweepCost host caches"
    by (simp add: sweepCost_def)
qed


lemma find_SomeD: "find P xs = Some c \<Longrightarrow> c \<in> set xs \<and> P c"
  by (induction xs) (auto split: if_splits)

lemma enqueuedFiles_nonempty:
  "enqueuedFiles host old new \<noteq> [] \<Longrightarrow> changedLinks old new \<noteq> []"
  by (auto simp: enqueuedFiles_def List.map_filter_simps)

text \<open>
  One run of the body either lowers the cost, or keeps it and shortens the queue: files
  are put on the queue only when the processed file had a stale entry or was missing.
\<close>

lemma pushedFiles_nonempty:
  assumes "pushedFiles cfg host f st \<noteq> []" and "getFileCacheData cfg host f = Some n"
  shows "changedLinks (case oldCache f st of None \<Rightarrow> [] | Some old \<Rightarrow> links old) (links n) \<noteq> []"
  using assms by (auto simp: pushedFiles_def dest: enqueuedFiles_nonempty split: if_splits)

lemma sweepBody_decreases:
  assumes "diff st = Some f"
  shows "((sweepCost host (newCaches (sweepBody cfg host f st)), sweepQueue (sweepBody cfg host f st)),
          (sweepCost host (newCaches st), sweepQueue st)) \<in> less_than <*lex*> less_than"
proof -
  let ?st' = "sweepBody cfg host f st"
  let ?enq = "pushedFiles cfg host f st"
  have before: "sweepQueue st = Suc (length (processDiffs st))"
    using assms by (simp add: sweepQueue_def)
  have q: "sweepQueue ?st' \<le> length (processDiffs st) + length ?enq"
    using shift_queue [of "processDiffs st @ map Some ?enq"]
    by (simp add: sweepBody_def sweepQueue_def Let_def)
  show ?thesis
  proof (cases "getFileCacheData cfg host f")
    case None
    then have e: "?enq = []" by (simp add: pushedFiles_def)
    have "sweepCost host (newCaches ?st') \<le> sweepCost host (newCaches st)"
    proof (rule cost_without_metadata [OF getFileCacheData_None [OF None]])
      show "newCaches ?st' = newCaches st \<or>
            (\<exists>c. path (fcFile c) = path f \<and> newCaches ?st' = remove1 c (newCaches st))"
        using None
        by (auto simp: sweepBody_def oldCache_def Let_def split: option.splits dest: find_SomeD)
    qed
    with q e before show ?thesis by auto
  next
    case (Some n)
    note n = getFileCacheData_links [OF Some]
    note ch = pushedFiles_nonempty [OF _ Some]
    show ?thesis
    proof (cases "oldCache f st")
      case None
      then have nin: "path f \<notin> (\<lambda>c. path (fcFile c)) ` set (newCaches st)"
        by (auto simp: oldCache_def find_None_iff)
      have c2: "newCaches ?st' = newCaches st @ [n]"
        using None Some by (simp add: sweepBody_def Let_def)
      have le: "sweepCost host (newCaches ?st') \<le> sweepCost host (newCaches st)"
        unfolding c2
        using nin getFileCacheData_Some_key [OF Some] n by (intro cost_new_entry(1)) auto
      have lt: "?enq \<noteq> [] \<Longrightarrow> sweepCost host (newCaches ?st') < sweepCost host (newCaches st)"
      proof -
        assume "?enq \<noteq> []"
        then have "links n \<noteq> []" using ch [of st] None by (auto dest: changedLinks_Nil)
        then show ?thesis
          unfolding c2
          using nin getFileCacheData_Some_key [OF Some] n by (intro cost_new_entry(2)) auto
      qed
      show ?thesis
      proof (cases "?enq = []")
        case True
        with q before le show ?thesis by auto
      next
        case False
        with lt show ?thesis by auto
      qed
    next
      case (Some c)
      then have c: "c \<in> set (newCaches st)" "path (fcFile c) = path f"
        by (auto simp: oldCache_def dest: find_SomeD)
      have c2: "newCaches ?st' = remove1 c (newCaches st) @ [n]"
        using Some \<open>getFileCacheData cfg host f = Some n\<close> by (simp add: sweepBody_def Let_def)
      have le: "sweepCost host (newCaches ?st') \<le> sweepCost host (newCaches st)"
        unfolding c2 using c n by (intro cost_replaced_entry(1) [of c _ "path f"]) auto
      have lt: "?enq \<noteq> [] \<Longrightarrow> sweepCost host (newCaches ?st') < sweepCost host (newCaches st)"
      proof -
        assume "?enq \<noteq> []"
        then have "changedLinks (links c) (links n) \<noteq> []" using ch [of st] Some by auto
        then show ?thesis
          unfolding c2 using c n by (intro cost_replaced_entry(2) [of c _ "path f"]) auto
      qed
      show ?thesis
      proof (cases "?enq = []")
        case True
        with q before le show ?thesis by auto
      next
        case False
        with lt show ?thesis by auto
      qed
    qed
  qed
qed

text \<open>The loop ends for every state: the loop body decreases a well-founded measure.\<close>

lemma sweep_terminates: "\<exists>st'. sweep cfg host st = Some st'"
proof (induction st rule: wf_induct_rule
    [OF wf_inv_image [OF wf_lex_prod [OF wf_less_than wf_less_than]],
      of "\<lambda>st. (sweepCost host (newCaches st), sweepQueue st)"])
  case (1 st)
  show ?case
  proof (cases "diff st")
    case None
    then show ?thesis by (subst sweep.simps) simp
  next
    case (Some f)
    have "(sweepBody cfg host f st, st) \<in>
            inv_image (less_than <*lex*> less_than)
              (\<lambda>st. (sweepCost host (newCaches st), sweepQueue st))"
      using sweepBody_decreases [OF Some, of host cfg] by (simp add: inv_image_def)
    from 1 [OF this] obtain st' where "sweep cfg host (sweepBody cfg host f st) = Some st'"
      by blast
    with Some show ?thesis by (subst sweep.simps) simp
  qed
qed

lemma updateFileCaches_returns: "\<exists>r. updateFileCaches host diffs p = Some r"
  using sweep_terminates [of "settings p" host]
  by (auto simp: updateFileCaches_def split: option.splits) (metis option.distinct(1))


lemma getAbstractFileByPath_paths:
  "map path (List.map_filter (getAbstractFileByPath host) ls) =
     filter (\<lambda>l. l \<in> path ` set (loadedFiles host)) ls"
proof (induction ls)
  case Nil
  show ?case by (simp add: List.map_filter_simps)
next
  case (Cons l ls)
  show ?case
  proof (cases "getAbstractFileByPath host l")
    case None
    then have "l \<notin> path ` set (loadedFiles host)"
      by (auto simp: getAbstractFileByPath_def find_None_iff)
    with None Cons show ?thesis by (simp add: List.map_filter_simps)
  next
    case (Some tf)
    then have "tf \<in> set (loadedFiles host)" "path tf = l"
      by (auto simp: getAbstractFileByPath_def dest: find_SomeD)
    then have "l \<in> path ` set (loadedFiles host)" by auto
    with Some Cons \<open>path tf = l\<close> show ?thesis by (simp add: List.map_filter_simps)
  qed
qed

lemma pushedFiles_paths:
  assumes "getFileCacheData cfg host f = Some n" and "linkViewOpen host"
  shows "map path (pushedFiles cfg host f st) =
           filter (\<lambda>l. l \<in> path ` set (loadedFiles host))
             (changedLinks (case oldCache f st of None \<Rightarrow> [] | Some old \<Rightarrow> links old) (links n))"
  using assms by (simp add: pushedFiles_def enqueuedFiles_def getAbstractFileByPath_paths)

lemma find_append:
  "find P (xs @ ys) = (case find P xs of None \<Rightarrow> find P ys | Some x \<Rightarrow> Some x)"
  by (induction xs) auto

lemma remove1_found_single:
  "length (filter P xs) \<le> 1 \<Longrightarrow> find P xs = Some c \<Longrightarrow> find P (remove1 c xs) = None"
proof (induction xs)
  case Nil
  then show ?case by simp
next
  case (Cons x xs)
  show ?case
  proof (cases "P x")
    case True
    with Cons.prems have "c = x" "filter P xs = []" by auto
    then show ?thesis by (simp add: find_None_iff filter_empty_conv)
  next
    case False
    with Cons.prems have f: "find P xs = Some c" by simp
    then have "P c" by (auto dest: find_SomeD)
    with False have "x \<noteq> c" by auto
    with False Cons f show ?thesis by simp
  qed
qed

text \<open>
  What stands for a set of visited paths: after a file has been processed, its entry
  holds the links that \<^verbatim>\<open>getFileCacheData\<close> gives, so processing it again pushes nothing.
\<close>

lemma pushedFiles_again:
  assumes "length (filter (\<lambda>c. path (fcFile c) = path f) (newCaches st)) \<le> 1"
  shows "pushedFiles cfg host f (sweepBody cfg host f st) = []"
proof (cases "getFileCacheData cfg host f")
  case None
  then show ?thesis by (simp add: pushedFiles_def)
next
  case (Some n)
  let ?P = "\<lambda>c. path (fcFile c) = path f"
  have pn: "?P n" using getFileCacheData_links [OF Some] by simp
  have "find ?P (case oldCache f st of None \<Rightarrow> newCaches st
                                     | Some c \<Rightarrow> remove1 c (newCaches st)) = None"
    using assms by (auto simp: oldCache_def split: option.splits intro: remove1_found_single)
  then have "oldCache f (sweepBody cfg host f st) = Some n"
    using Some pn by (simp add: oldCache_def sweepBody_def Let_def find_append)
  then show ?thesis
    using Some
    by (simp add: pushedFiles_def enqueuedFiles_def changedLinks_same List.map_filter_simps)
qed


text \<open>The queue after one run of the body: the files pushed, behind the old queue.\<close>

lemma sweepBody_queue:
  "(diff (sweepBody cfg host f st), processDiffs (sweepBody cfg host f st)) =
     shift (processDiffs st @ map Some (pushedFiles cfg host f st))"
  by (simp add: sweepBody_def Let_def)

lemma pushedFiles_vault: "set (pushedFiles cfg host f st) \<subseteq> set (loadedFiles host)"
  by (auto simp: pushedFiles_def enqueuedFiles_def getAbstractFileByPath_def List.map_filter_def
      split: option.splits if_splits dest: find_SomeD)

lemma pushedFiles_none:
  "\<not> linkViewOpen host \<or> getFileCacheData cfg host f = None \<Longrightarrow> pushedFiles cfg host f st = []"
  by (auto simp: pushedFiles_def split: option.splits)

text \<open>
  Claim C7, as stated, fails in its clause on the queue. The file \<^verbatim>\<open>A.md\<close> is processed;
  its old links are \<^verbatim>\<open>C.md\<close> and \<^verbatim>\<open>D.md\<close>, its new links are \<^verbatim>\<open>C.md\<close>, \<^verbatim>\<open>B.md\<close> and
  \<^verbatim>\<open>ghost.md\<close>, so the links in exactly one of the two lists are \<^verbatim>\<open>D.md\<close>, \<^verbatim>\<open>B.md\<close> and
  \<^verbatim>\<open>ghost.md\<close>. The vault holds neither \<^verbatim>\<open>D.md\<close> nor \<^verbatim>\<open>ghost.md\<close>, and the body pushes
  the one file \<^verbatim>\<open>B.md\<close>: line 539 pushes a path only when it names a file. And without a
  link view the new links are empty, the two lists differ, and the body pushes nothing
  (line 531).
\<close>

theorem C7_only_vault_files_enqueued:
  "map_option links (oldCache (mkFile ''A'' 1) sweepGhost) = Some [''C.md'', ''D.md''] \<and>
   map_option links (getFileCacheData settings0 hostGhost (mkFile ''A'' 1)) =
     Some [''C.md'', ''B.md'', ''ghost.md''] \<and>
   changedLinks [''C.md'', ''D.md''] [''C.md'', ''B.md'', ''ghost.md''] =
     [''D.md'', ''B.md'', ''ghost.md''] \<and>
   map_option path (diff (sweepBody settings0 hostGhost (mkFile ''A'' 1) sweepGhost)) =
     Some ''B.md'' \<and>
   processDiffs (sweepBody settings0 hostGhost (mkFile ''A'' 1) sweepGhost) = [] \<and>
   map_option links
     (getFileCacheData settings0 (hostGhost\<lparr>linkViewOpen := False\<rparr>) (mkFile ''A'' 1)) = Some [] \<and>
   diff (sweepBody settings0 (hostGhost\<lparr>linkViewOpen := False\<rparr>) (mkFile ''A'' 1) sweepGhost) =
     None \<and>
   processDiffs
     (sweepBody settings0 (hostGhost\<lparr>linkViewOpen := False\<rparr>) (mkFile ''A'' 1) sweepGhost) = []"
  by code_simp

text \<open>
  Claim C7, amended: for every state of the loop, that is for every queue of files, every
  list of caches and every host, cyclic references included, the loop of
  \<^verbatim>\<open>updateFileCaches\<close> ends, and so does \<^verbatim>\<open>updateFileCaches\<close> for every list of diffs.
  One run of the body for the file \<open>f\<close> leaves the old queue with some files \<open>fs\<close> of
  the vault appended (and the first entry shifted into \<^verbatim>\<open>diff\<close>). When \<open>f\<close> has
  metadata and a link view is open, the paths of \<open>fs\<close> are the links that are in exactly
  one of the old and the new list and that name a file of the vault, in the order of
  \<^verbatim>\<open>unique([...oldLinks, ...newLinks])\<close>; otherwise \<open>fs\<close> is empty. No set of visited
  paths is kept; in its place, the entry of a processed file holds its current links, so
  that the body run for the same file again leaves the queue as it is (with at most one
  entry for the path), and each run of the body lowers a measure that is bounded below.
\<close>

theorem C7_link_sweep_terminates:
  "(\<exists>st'. sweep cfg host st = Some st') \<and>
   (\<exists>r. updateFileCaches host diffs p = Some r) \<and>
   (\<exists>fs. (diff (sweepBody cfg host f st), processDiffs (sweepBody cfg host f st)) =
            shift (processDiffs st @ map Some fs) \<and>
          set fs \<subseteq> set (loadedFiles host) \<and>
          (linkViewOpen host \<and> getFileCacheData cfg host f = Some n \<longrightarrow>
             map path fs =
               filter (\<lambda>l. l \<in> path ` set (loadedFiles host))
                 (changedLinks (case oldCache f st of None \<Rightarrow> [] | Some old \<Rightarrow> links old)
                    (links n)) \<and>
             set (map path fs) =
               {l. (l \<in> set (case oldCache f st of None \<Rightarrow> [] | Some old \<Rightarrow> links old) \<or>
                    l \<in> set (links n)) \<and>
                   \<not> (l \<in> set (case oldCache f st of None \<Rightarrow> [] | Some old \<Rightarrow> links old) \<and>
                      l \<in> set (links n)) \<and>
                   l \<in> path ` set (loadedFiles host)}) \<and>
          (\<not> linkViewOpen host \<or> getFileCacheData cfg host f = None \<longrightarrow> fs = [])) \<and>
   (length (filter (\<lambda>c. path (fcFile c) = path f) (newCaches st)) \<le> 1 \<longrightarrow>
      (diff (sweepBody cfg host f (sweepBody cfg host f st)),
       processDiffs (sweepBody cfg host f (sweepBody cfg host f st))) =
        shift (processDiffs (sweepBody cfg host f st)))"
proof (intro conjI impI)
  show "\<exists>st'. sweep cfg host st = Some st'" by (rule sweep_terminates)
  show "\<exists>r. updateFileCaches host diffs p = Some r" by (rule updateFileCaches_returns)
next
  let ?old = "case oldCache f st of None \<Rightarrow> [] | Some old \<Rightarrow> links old"
  let ?fs = "pushedFiles cfg host f st"
  have m: "map path ?fs = filter (\<lambda>l. l \<in> path ` set (loadedFiles host)) (changedLinks ?old (links n))"
    if "linkViewOpen host \<and> getFileCacheData cfg host f = Some n"
    using that by (simp add: pushedFiles_paths)
  have s: "set (map path ?fs) =
        {l. (l \<in> set ?old \<or> l \<in> set (links n)) \<and> \<not> (l \<in> set ?old \<and> l \<in> set (links n)) \<and>
            l \<in> path ` set (loadedFiles host)}"
    if "linkViewOpen host \<and> getFileCacheData cfg host f = Some n"
    unfolding m [OF that] by (auto simp: set_changedLinks)
  have e: "?fs = []" if "\<not> linkViewOpen host \<or> getFileCacheData cfg host f = None"
    using that by (rule pushedFiles_none)
  show "\<exists>fs. (diff (sweepBody cfg host f st), processDiffs (sweepBody cfg host f st)) =
            shift (processDiffs st @ map Some fs) \<and>
          set fs \<subseteq> set (loadedFiles host) \<and>
          (linkViewOpen host \<and> getFileCacheData cfg host f = Some n \<longrightarrow>
             map path fs =
               filter (\<lambda>l. l \<in> path ` set (loadedFiles host)) (changedLinks ?old (links n)) \<and>
             set (map path fs) =
               {l. (l \<in> set ?old \<or> l \<in> set (links n)) \<and>
                   \<not> (l \<in> set ?old \<and> l \<in> set (links n)) \<and>
                   l \<in> path ` set (loadedFiles host)}) \<and>
          (\<not> linkViewOpen host \<or> getFileCacheData cfg host f = None \<longrightarrow> fs = [])"
    using sweepBody_queue [of cfg host f st] pushedFiles_vault [of cfg host f st] m s e
    by (intro exI [of _ ?fs]) blast
next
  assume "length (filter (\<lambda>c. path (fcFile c) = path f) (newCaches st)) \<le> 1"
  then have "pushedFiles cfg host f (sweepBody cfg host f st) = []"
    by (rule pushedFiles_again)
  then show "(diff (sweepBody cfg host f (sweepBody cfg host f st)),
       processDiffs (sweepBody cfg host f (sweepBody cfg host f st))) =
        shift (processDiffs (sweepBody cfg host f st))"
    using sweepBody_queue [of cfg host f "sweepBody cfg host f st"] by simp
qed

theorem C7_link_sweep_terminates_witness:
  "updateFileCaches hostCycle [Some (mkFile ''A'' 1)] pluginCycle \<noteq> None \<and>
   map_option path (diff (sweepBody settings0 hostCycle (mkFile ''A'' 1) sweepStart)) =
     Some ''B.md'' \<and>
   processDiffs (sweepBody settings0 hostCycle (mkFile ''A'' 1) sweepStart) = [] \<and>
   (diff (sweepBody settings0 hostCycle (mkFile ''A'' 1)
            (sweepBody settings0 hostCycle (mkFile ''A'' 1) sweepStart)),
    processDiffs (sweepBody settings0 hostCycle (mkFile ''A'' 1)
            (sweepBody settings0 hostCycle (mkFile ''A'' 1) sweepStart))) = (None, []) \<and>
   map_option (\<lambda>r. map (\<lambda>c. (path (fcFile c), links c)) (fileCaches (snd r)))
     (updateFileCaches hostCycle [Some (mkFile ''A'' 1)] pluginCycle) =
     Some [(''B.md'', [''A.md'']), (''A.md'', [''B.md''])]"
proof -
  let ?f = "mkFile ''A'' 1"
  let ?n = "\<lparr> fcFile = mkFile ''A'' 1, links = [''B.md''], tags = [] \<rparr>"
  let ?st1 = "sweepBody settings0 hostCycle ?f sweepStart"
  let ?old = "case oldCache ?f sweepStart of None \<Rightarrow> [] | Some old \<Rightarrow> links old"
  have h1: "linkViewOpen hostCycle \<and> getFileCacheData settings0 hostCycle ?f = Some ?n"
    by code_simp
  have h3: "length (filter (\<lambda>c. path (fcFile c) = path ?f) (newCaches sweepStart)) \<le> 1"
    by code_simp
  have c: "filter (\<lambda>l. l \<in> path ` set (loadedFiles hostCycle)) (changedLinks ?old (links ?n)) =
             [''B.md'']" by code_simp
  have e: "processDiffs sweepStart = []" by code_simp
  have v: "map_option (\<lambda>r. map (\<lambda>c. (path (fcFile c), links c)) (fileCaches (snd r)))
     (updateFileCaches hostCycle [Some ?f] pluginCycle) =
     Some [(''B.md'', [''A.md'']), (''A.md'', [''B.md''])]" by code_simp
  note t = C7_link_sweep_terminates
      [of settings0 hostCycle sweepStart "[Some ?f]" pluginCycle ?f ?n]
  from t have r: "updateFileCaches hostCycle [Some ?f] pluginCycle \<noteq> None" by auto
  from t obtain fs :: "TFile list" where
    qe: "(diff ?st1, processDiffs ?st1) = shift (processDiffs sweepStart @ map Some fs)" and
    i: "linkViewOpen hostCycle \<and> getFileCacheData settings0 hostCycle ?f = Some ?n \<longrightarrow>
          map path fs =
            filter (\<lambda>l. l \<in> path ` set (loadedFiles hostCycle)) (changedLinks ?old (links ?n)) \<and>
          set (map path fs) =
            {l. (l \<in> set ?old \<or> l \<in> set (links ?n)) \<and> \<not> (l \<in> set ?old \<and> l \<in> set (links ?n)) \<and>
                l \<in> path ` set (loadedFiles hostCycle)}"
    by (elim exE conjE)
  from i h1 have "map path fs =
      filter (\<lambda>l. l \<in> path ` set (loadedFiles hostCycle)) (changedLinks ?old (links ?n))"
    by (rule mp [THEN conjunct1])
  then have "map path fs = [''B.md'']" unfolding c .
  then obtain x where x: "fs = [x]" "path x = ''B.md''" by (cases fs) auto
  from qe have first: "map_option path (diff ?st1) = Some ''B.md'' \<and> processDiffs ?st1 = []"
    unfolding e x(1) using x(2) by (simp add: shift_def)
  then have q: "shift (processDiffs ?st1) = (None, [])" by (simp add: shift_def)
  from t h3 have a: "(diff (sweepBody settings0 hostCycle ?f ?st1),
      processDiffs (sweepBody settings0 hostCycle ?f ?st1)) = shift (processDiffs ?st1)"
    by blast
  show ?thesis
    using r first a v unfolding q by simp
qed


section \<open>The full rescan\<close>

text \<open>
  Claim C6 describes what the code of \<^verbatim>\<open>updateFileCachesAll\<close> attempts and misses. The
  table \<^verbatim>\<open>parsedFileCache\<close> is read in line 489 and cleared in line 1036, and nothing
  writes to it. Evaluated on a vault with \<^verbatim>\<open>a.md\<close> (modification time 0) and \<^verbatim>\<open>b.md\<close>
  (modification time 7) whose caches the plugin holds: \<^verbatim>\<open>a.md\<close> passes for unchanged (no
  record, and \<^verbatim>\<open>0 != 0\<close> is false), it is not processed, and its cache is not retained:
  the new \<^verbatim>\<open>fileCaches\<close> hold \<^verbatim>\<open>b.md\<close> only. And were the time 7 of \<^verbatim>\<open>b.md\<close> recorded,
  \<^verbatim>\<open>b.md\<close> would be processed all the same, since the filter then gives the recorded
  number itself.
\<close>

theorem C6_unchanged_file_not_retained:
  "\<not> needsProcessing pluginTimes (mkFile ''a'' 0) \<and>
   map_option (\<lambda>r. map (\<lambda>c. path (fcFile c)) (fileCaches (snd r)))
     (updateFileCaches hostTimes [] pluginTimes) = Some [''b.md''] \<and>
   needsProcessing (pluginTimes\<lparr>parsedFileCache := [''b.md'' \<mapsto> 7]\<rparr>) (mkFile ''b'' 7)"
  by code_simp



section \<open>The change scheduler\<close>

lemma schedInv_initial: "schedInv initialSched"
  by (simp add: schedInv_def initialSched_def)

lemma clearLoadFileTimer_pending:
  assumes "case pendingTimers s of [] \<Rightarrow> True
           | h # rest \<Rightarrow> rest = [] \<and> loadFileTimer s = Some h \<and> h \<noteq> 0"
  shows "pendingTimers (clearLoadFileTimer s) = []"
  using assms by (auto simp: clearLoadFileTimer_def split: list.splits option.splits)

lemma clearLoadFileTimer_inv:
  "schedInv s \<Longrightarrow> pendingTimers (clearLoadFileTimer s) = []"
  by (rule clearLoadFileTimer_pending) (auto simp: schedInv_def split: list.splits)

lemma clearLoadFileTimer_fields:
  "loadFileQueue (clearLoadFileTimer s) = loadFileQueue s"
  "loadFileTimer (clearLoadFileTimer s) = loadFileTimer s"
  "processingFileInfo (clearLoadFileTimer s) = processingFileInfo s"
  "timerCount (clearLoadFileTimer s) = timerCount s"
  "calls (clearLoadFileTimer s) = calls s"
  "started (clearLoadFileTimer s) = started s"
  "inFlight (clearLoadFileTimer s) = inFlight s"
  by (simp_all add: clearLoadFileTimer_def split: option.splits)

text \<open>What \<^verbatim>\<open>loadFileInfoAsync\<close> does with a file.\<close>

lemma queueFile_queue:
  "loadFileQueue (queueFile d s) =
     (if path d \<in> set (map path (loadFileQueue s)) then loadFileQueue s
      else loadFileQueue s @ [d])"
proof -
  have "list_ex (\<lambda>e. path e = path d) (loadFileQueue s) \<longleftrightarrow>
          path d \<in> set (map path (loadFileQueue s))"
    by (simp add: list_ex_iff image_iff) metis
  then show ?thesis
    by (simp add: queueFile_def Let_def clearLoadFileTimer_fields)
qed

lemma queueFile_fields:
  "loadFileTimer (queueFile d s) = Some (Suc (timerCount s))"
  "timerCount (queueFile d s) = Suc (timerCount s)"
  "processingFileInfo (queueFile d s) = processingFileInfo s"
  "calls (queueFile d s) = calls s"
  "started (queueFile d s) = started s"
  "inFlight (queueFile d s) = inFlight s"
  by (simp_all add: queueFile_def Let_def clearLoadFileTimer_fields)

lemma queueFile_pending:
  assumes "schedInv s"
  shows "pendingTimers (queueFile d s) = [Suc (timerCount s)]"
proof -
  let ?s1 = "if list_ex (\<lambda>e. path e = path d) (loadFileQueue s) then s
             else s\<lparr>loadFileQueue := loadFileQueue s @ [d]\<rparr>"
  have "case pendingTimers ?s1 of [] \<Rightarrow> True
        | h # rest \<Rightarrow> rest = [] \<and> loadFileTimer ?s1 = Some h \<and> h \<noteq> 0"
    using assms by (auto simp: schedInv_def split: list.splits)
  then have "pendingTimers (clearLoadFileTimer ?s1) = []"
    by (rule clearLoadFileTimer_pending)
  then show ?thesis
    by (simp add: queueFile_def Let_def clearLoadFileTimer_fields)
qed

lemma queueFile_inv: "schedInv s \<Longrightarrow> schedInv (queueFile d s)"
  using queueFile_pending [of s d]
  by (auto simp: schedInv_def queueFile_fields queueFile_queue)

lemma fold_queueFile_inv: "schedInv s \<Longrightarrow> schedInv (fold queueFile ds s)"
  by (induction ds arbitrary: s) (simp_all add: queueFile_inv)

lemma fold_queueFile_fields:
  "processingFileInfo (fold queueFile ds s) = processingFileInfo s"
  "calls (fold queueFile ds s) = calls s"
  "started (fold queueFile ds s) = started s"
  "inFlight (fold queueFile ds s) = inFlight s"
  by (induction ds arbitrary: s) (simp_all add: queueFile_fields)

lemma fold_queueFile_paths:
  "set (map path (loadFileQueue (fold queueFile ds s))) =
     set (map path (loadFileQueue s)) \<union> set (map path ds)"
  by (induction ds arbitrary: s) (auto simp: queueFile_queue)

lemma fold_queueFile_pending:
  "schedInv s \<Longrightarrow> ds \<noteq> [] \<Longrightarrow> \<exists>h. pendingTimers (fold queueFile ds s) = [h]"
proof (induction ds arbitrary: s rule: rev_induct)
  case Nil
  then show ?case by simp
next
  case (snoc d ds)
  have "schedInv (fold queueFile ds s)" using snoc.prems(1) by (rule fold_queueFile_inv)
  then show ?case by (simp add: queueFile_pending)
qed

lemma fold_queueFile_fresh:
  "distinct (map path (loadFileQueue s @ ds)) \<Longrightarrow>
     loadFileQueue (fold queueFile ds s) = loadFileQueue s @ ds"
proof (induction ds arbitrary: s)
  case Nil
  show ?case by simp
next
  case (Cons d ds)
  from Cons.prems have q: "loadFileQueue (queueFile d s) = loadFileQueue s @ [d]"
    by (auto simp: queueFile_queue)
  with Cons.prems have "distinct (map path (loadFileQueue (queueFile d s) @ ds))" by simp
  from Cons.IH [OF this] q show ?case by simp
qed


lemma loadFileInfos_inv: "schedInv s \<Longrightarrow> schedInv (loadFileInfos diffs s)"
proof -
  assume i: "schedInv s"
  then have "schedInv (s\<lparr>calls := calls s @ [diffs]\<rparr>)"
    by (simp add: schedInv_def split: list.splits)
  then have "schedInv (fold queueFile diffs (s\<lparr>calls := calls s @ [diffs]\<rparr>))"
    by (rule fold_queueFile_inv)
  moreover have "\<not> processingFileInfo s \<Longrightarrow>
      schedInv (s\<lparr>calls := calls s @ [diffs], processingFileInfo := True,
                  started := started s @ [diffs], inFlight := Suc (inFlight s)\<rparr>)"
    using i by (simp add: schedInv_def split: list.splits)
  ultimately show ?thesis by (simp add: loadFileInfos_def Let_def)
qed

lemma rebuild_inv: "schedInv s \<Longrightarrow> schedInv (loadFileInfoAsync None s)"
proof -
  assume i: "schedInv s"
  let ?s1 = "s\<lparr>loadFileQueue := []\<rparr>"
  have p: "case pendingTimers ?s1 of [] \<Rightarrow> True
           | h # rest \<Rightarrow> rest = [] \<and> loadFileTimer ?s1 = Some h \<and> h \<noteq> 0"
    using i by (auto simp: schedInv_def split: list.splits)
  have "schedInv (case loadFileTimer ?s1 of None \<Rightarrow> ?s1
          | Some h \<Rightarrow> if h \<noteq> 0 then (clearLoadFileTimer ?s1)\<lparr>loadFileTimer := None\<rparr> else ?s1)"
  proof (cases "loadFileTimer s")
    case None
    with i show ?thesis by (auto simp: schedInv_def split: list.splits)
  next
    case (Some h)
    show ?thesis
    proof (cases "h = 0")
      case True
      with Some i show ?thesis by (auto simp: schedInv_def split: list.splits)
    next
      case False
      with Some i clearLoadFileTimer_pending [OF p] show ?thesis
        by (simp add: schedInv_def clearLoadFileTimer_fields)
    qed
  qed
  then show ?thesis by (simp add: loadFileInfoAsync_def Let_def loadFileInfos_inv)
qed

lemma fire_inv: "schedInv s \<Longrightarrow> schedInv (step (Fire h) s)"
proof -
  assume i: "schedInv s"
  show ?thesis
  proof (cases "List.member (pendingTimers s) h")
    case False
    with i show ?thesis by simp
  next
    case True
    with i have p: "pendingTimers s = [h]"
      by (auto simp: schedInv_def split: list.splits)
    let ?s1 = "s\<lparr>pendingTimers := [], loadFileQueue := []\<rparr>"
    have "schedInv ?s1" using i by (simp add: schedInv_def split: list.splits)
    then have "schedInv (loadFileInfos (loadFileQueue s) ?s1)" by (rule loadFileInfos_inv)
    moreover have "loadFileQueue s = [] \<Longrightarrow> schedInv (s\<lparr>pendingTimers := []\<rparr>)"
      using i by (simp add: schedInv_def split: list.splits)
    ultimately show ?thesis using True p by (simp add: timerCallback_def)
  qed
qed

lemma step_inv: "schedInv s \<Longrightarrow> schedInv (step e s)"
proof (cases e)
  case (Notify f)
  assume "schedInv s"
  then show ?thesis using Notify by (simp add: loadFileInfoAsync_def queueFile_inv)
next
  case Rebuild
  assume "schedInv s"
  then show ?thesis using Rebuild by (simp add: rebuild_inv)
next
  case (Fire h)
  assume "schedInv s"
  then show ?thesis using Fire by (simp only: fire_inv)
next
  case (Finish outcome)
  assume "schedInv s"
  then show ?thesis using Finish
    by (auto simp: schedInv_def finishPass_def split: if_splits list.splits)
qed

lemma run_inv: "schedInv s \<Longrightarrow> schedInv (run events s)"
  unfolding run_def by (induction events arbitrary: s) (simp_all add: step_inv)

lemma run_notify: "run (map Notify fs) s = fold queueFile fs s"
  unfolding run_def by (induction fs arbitrary: s) (simp_all add: loadFileInfoAsync_def)

text \<open>The pending timer fires: one call of \<^verbatim>\<open>loadFileInfos\<close>, with the whole queue.\<close>

lemma fire_calls:
  assumes "pendingTimers s = [h]" and "loadFileQueue s \<noteq> []"
  shows "calls (step (Fire h) s) = calls s @ [loadFileQueue s]"
  using assms by (simp add: timerCallback_def loadFileInfos_def Let_def fold_queueFile_fields)

lemma fire_starts:
  assumes "pendingTimers s = [h]" and "loadFileQueue s \<noteq> []" and "\<not> processingFileInfo s"
  shows "started (step (Fire h) s) = started s @ [loadFileQueue s]"
    and "pendingTimers (step (Fire h) s) = []"
    and "loadFileQueue (step (Fire h) s) = []"
    and "processingFileInfo (step (Fire h) s)"
  using assms by (simp_all add: timerCallback_def loadFileInfos_def Let_def)

text \<open>
  Claim C8: for every state of the scheduler between two events and every non-empty
  sequence of change notifications delivered before a timer fires, no call of
  \<^verbatim>\<open>loadFileInfos\<close> occurs during the notifications; afterwards exactly one timer is
  pending, and when it fires it makes exactly one call of \<^verbatim>\<open>loadFileInfos\<close>, whose
  argument is the queue: it holds the path of every notification and no path twice, and
  it is the sequence of the notified files itself when the queue was empty before and
  their paths are distinct. When no pass is in flight, that call starts one pass and
  leaves no timer pending and the queue empty.
\<close>

theorem C8_debounce_coalescing:
  assumes "schedInv s" and "fs \<noteq> []"
  shows "calls (run (map Notify fs) s) = calls s \<and>
         (\<exists>h. pendingTimers (run (map Notify fs) s) = [h] \<and>
              calls (step (Fire h) (run (map Notify fs) s)) =
                calls s @ [loadFileQueue (run (map Notify fs) s)] \<and>
              (\<not> processingFileInfo s \<longrightarrow>
                 started (step (Fire h) (run (map Notify fs) s)) =
                   started s @ [loadFileQueue (run (map Notify fs) s)] \<and>
                 pendingTimers (step (Fire h) (run (map Notify fs) s)) = [] \<and>
                 loadFileQueue (step (Fire h) (run (map Notify fs) s)) = [])) \<and>
         set (map path fs) \<subseteq> set (map path (loadFileQueue (run (map Notify fs) s))) \<and>
         distinct (map path (loadFileQueue (run (map Notify fs) s))) \<and>
         (loadFileQueue s = [] \<and> distinct (map path fs) \<longrightarrow>
            loadFileQueue (run (map Notify fs) s) = fs)"
proof -
  let ?s' = "run (map Notify fs) s"
  have i: "schedInv ?s'" using assms(1) by (rule run_inv)
  obtain h where h: "pendingTimers ?s' = [h]"
    using fold_queueFile_pending [OF assms] by (auto simp: run_notify)
  have ne: "loadFileQueue ?s' \<noteq> []"
    using assms(2) fold_queueFile_paths [of fs s] by (auto simp: run_notify)
  have pr: "processingFileInfo ?s' = processingFileInfo s"
    by (simp add: run_notify fold_queueFile_fields)
  have c: "calls ?s' = calls s" "started ?s' = started s"
    by (simp_all add: run_notify fold_queueFile_fields)
  have "calls (step (Fire h) ?s') = calls s @ [loadFileQueue ?s']"
    using fire_calls [OF h ne] c by simp
  moreover have "\<not> processingFileInfo s \<longrightarrow>
                 started (step (Fire h) ?s') = started s @ [loadFileQueue ?s'] \<and>
                 pendingTimers (step (Fire h) ?s') = [] \<and>
                 loadFileQueue (step (Fire h) ?s') = []"
    using fire_starts [OF h ne] pr c by simp
  moreover have "set (map path fs) \<subseteq> set (map path (loadFileQueue ?s'))"
    using fold_queueFile_paths [of fs s] by (auto simp: run_notify)
  moreover have "distinct (map path (loadFileQueue ?s'))"
    using i by (simp add: schedInv_def)
  moreover have "loadFileQueue s = [] \<and> distinct (map path fs) \<longrightarrow> loadFileQueue ?s' = fs"
    using fold_queueFile_fresh [of s fs] by (auto simp: run_notify)
  ultimately show ?thesis using h c by blast
qed

theorem C8_debounce_coalescing_witness:
  "pendingTimers (run [Notify fileP, Notify fileQ, Notify fileP] initialSched) = [3] \<and>
   calls (run [Notify fileP, Notify fileQ, Notify fileP] initialSched) = [] \<and>
   calls (run [Notify fileP, Notify fileQ, Notify fileP, Fire 3] initialSched) = [[fileP, fileQ]] \<and>
   started (run [Notify fileP, Notify fileQ, Notify fileP, Fire 3] initialSched) = [[fileP, fileQ]] \<and>
   pendingTimers (run [Notify fileP, Notify fileQ, Notify fileP, Fire 3] initialSched) = []"
proof -
  have ne: "[fileP, fileQ, fileP] \<noteq> []" by simp
  have v: "pendingTimers (run [Notify fileP, Notify fileQ, Notify fileP] initialSched) = [3]"
    "calls (run [Notify fileP, Notify fileQ, Notify fileP, Fire 3] initialSched) = [[fileP, fileQ]]"
    "started (run [Notify fileP, Notify fileQ, Notify fileP, Fire 3] initialSched) = [[fileP, fileQ]]"
    "pendingTimers (run [Notify fileP, Notify fileQ, Notify fileP, Fire 3] initialSched) = []"
    by code_simp+
  have "calls (run (map Notify [fileP, fileQ, fileP]) initialSched) = calls initialSched"
    using C8_debounce_coalescing [OF schedInv_initial ne] by blast
  then have "calls (run [Notify fileP, Notify fileQ, Notify fileP] initialSched) = []"
    by (simp add: initialSched_def)
  with v show ?thesis by simp
qed

text \<open>
  Claim C9 does not hold of the code: a notification that arrives while a pass is in
  flight is lost when a request without a file follows before the pass has ended. A pass
  for \<^verbatim>\<open>q.md\<close> is in flight when a notification for \<^verbatim>\<open>p.md\<close> arrives; the file is
  queued and a timer is set. Then a request without a file arrives (\<^verbatim>\<open>refreshAllTree\<close>,
  as after a rename or a change of the search string): \<^verbatim>\<open>loadFileInfoAsync\<close> empties
  the queue, clears the timer and calls \<^verbatim>\<open>loadFileInfos([])\<close>, which finds the flag
  set, has no file to hand back and returns. When the pass has ended, the flag is clear,
  the queue is empty and no timer is pending: the only pass that has started is the one
  for \<^verbatim>\<open>q.md\<close>, and nothing is left that would start a pass for \<^verbatim>\<open>p.md\<close> or the
  full rescan that was requested.
\<close>

theorem C9_notification_lost:
  "processingFileInfo (run [Notify fileQ, Fire 1] initialSched) \<and>
   loadFileQueue (run [Notify fileQ, Fire 1, Notify fileP] initialSched) = [fileP] \<and>
   loadFileQueue (run [Notify fileQ, Fire 1, Notify fileP, Rebuild, Finish Returned] initialSched) = [] \<and>
   pendingTimers (run [Notify fileQ, Fire 1, Notify fileP, Rebuild, Finish Returned] initialSched) = [] \<and>
   \<not> processingFileInfo
       (run [Notify fileQ, Fire 1, Notify fileP, Rebuild, Finish Returned] initialSched) \<and>
   started (run [Notify fileQ, Fire 1, Notify fileP, Rebuild, Finish Returned] initialSched) =
     [[fileQ]]"
  by code_simp

end
